theory Spec2Isabelle
  imports Main
begin

section \<open>Strings and dotted paths\<close>

text \<open>
  Paths of tree elements are JavaScript strings of numbers separated by dots
  (\<open>''1.2.1''\<close>). The string methods that \<open>device.js\<close> calls on them are
  written out here: \<open>lastIndexOf\<close> yields \<open>-1\<close> when the character does not
  occur, \<open>split\<close> always yields at least one segment, \<open>join\<close> is its inverse.
\<close>

fun lastIndexOf :: "string \<Rightarrow> char \<Rightarrow> int" where
  "lastIndexOf [] c = - 1"
| "lastIndexOf (x # xs) c =
     (let r = lastIndexOf xs c
      in if 0 \<le> r then r + 1 else if x = c then 0 else - 1)"

definition startsWith :: "string \<Rightarrow> string \<Rightarrow> bool" where
  "startsWith s p = (take (length p) s = p)"

fun split :: "char \<Rightarrow> string \<Rightarrow> string list" where
  "split c [] = [[]]"
| "split c (x # xs) =
     (if x = c then [] # split c xs
      else (x # hd (split c xs)) # tl (split c xs))"

fun join :: "string \<Rightarrow> string list \<Rightarrow> string" where
  "join sep [] = []"
| "join sep [s] = s"
| "join sep (s # t # ss) = s @ sep @ join sep (t # ss)"

text \<open>
  \<open>isDirectSubPathOf\<close> (device.js, line 134): the last dot of \<open>path\<close> sits right
  after \<open>parent\<close>, and \<open>path\<close> starts with \<open>parent\<close>.
\<close>

definition isDirectSubPathOf :: "string \<Rightarrow> string \<Rightarrow> bool" where
  "isDirectSubPathOf path parent =
     (lastIndexOf path (CHR ''.'') = int (length parent) \<and> startsWith path parent)"

text \<open>
  The specification's wording of the same relation, for comparison with the code:
  \<open>path\<close> is a direct child path of \<open>parent\<close> when it is exactly one dot-separated
  segment deeper, that is, when dropping its last segment leaves the segments of
  \<open>parent\<close>.
\<close>

definition isDirectChildPath :: "string \<Rightarrow> string \<Rightarrow> bool" where
  "isDirectChildPath parent path =
     (butlast (split (CHR ''.'') path) = split (CHR ''.'') parent)"

text \<open>
  The completion test of the \<open>getDirectory\<close> response handler (device.js, lines
  173 to 175): the fragment has an element list, and every element's path is the
  requested path or a direct sub-path of it. \<open>None\<close> stands for an element list that
  is \<open>null\<close> or \<open>undefined\<close>.
\<close>

definition responseComplete :: "string \<Rightarrow> string list option \<Rightarrow> bool" where
  "responseComplete requestedPath nodeElements =
     (case nodeElements of
        None \<Rightarrow> False
      | Some els \<Rightarrow>
          list_all (\<lambda>p. p = requestedPath \<or> isDirectSubPathOf p requestedPath) els)"

section \<open>The device controller: state\<close>

text \<open>
  \<open>DeviceTree\<close> keeps a queue of pending requests, at most one active request,
  the handle of its timer, and one callback slot that every inbound event is routed
  to. Closures are represented by data: a \<open>request\<close> is the function pushed by
  \<open>addRequest\<close> (one constructor per place of the source that builds one), a
  \<open>handler\<close> is a function stored in \<open>self.callback\<close>. Each carries the number
  of the promise whose \<open>resolve\<close> and \<open>reject\<close> it captured; a promise number is
  allocated by every \<open>new Promise\<close>, so two closures built by two calls differ,
  as two function objects do in JavaScript.
\<close>

datatype error =
    Error string
  | EmberTimeoutError nat
  | EmberAccessError string
  | TransportError string

text \<open>
  \<open>EmberTimeoutError i\<close> stands for the message \<open>Request i timed out\<close>.
\<close>

datatype node_kind =
    Root | Node | QualifiedNode | Parameter | QualifiedParameter | Function | QualifiedFunction

record treenode =
  getPath :: string
  kind :: node_kind
  isStream :: bool
  subscribers :: "nat list"

record fragment =
  isInvocationResult :: bool
  elements :: "string list option"

text \<open>
  A \<open>fragment\<close> is the decoded tree delivered by the client's \<open>emberTree\<close>
  event, as far as the request handlers read it: whether it is an
  \<open>InvocationResult\<close>, and the \<open>getPath()\<close> of each of its top-level elements
  (\<open>None\<close> when \<open>elements\<close> is \<open>null\<close> or \<open>undefined\<close>).
\<close>

datatype jsvalue = Undefined | Fragment fragment | TreeNode treenode

datatype outcome = Resolved jsvalue | Rejected error

datatype message =
    GetDirectoryMsg treenode
  | InvokeMsg treenode string
  | SetValueMsg treenode string

datatype client_call = ClientConnect nat | ClientDisconnect | SendBERNode message

datatype tree_call = Clear | CancelCallbacks | GetNodeByPath "string list"

datatype request =
    GetDirectoryReq nat treenode
  | InvokeFunctionReq nat treenode string
  | SetValueReq nat treenode string
  | GetNodeByPathReq nat "string list"

datatype handler =
    ConnectCb nat
  | GetDirectoryCb nat treenode
  | InvokeFunctionCb nat
  | SetValueCb nat

datatype emitted =
    Connecting | Connected | Disconnected | ErrorEvent "error option"
  | InvocationResultEvent fragment

text \<open>
  The first five fields are the fields of \<open>DeviceTree\<close>. \<open>rootElements\<close> is what
  the handlers read of \<open>self.root\<close>: the paths of its elements. \<open>timers\<close> holds the
  timers that are armed (set, neither cleared nor fired), \<open>nodeByPathCallback\<close> the
  continuation handed to the tree model by \<open>getNodeByPath\<close>. The remaining fields
  only record what happened, in order: handles passed to the runtime's
  \<open>clearTimeout\<close>, timers that fired, calls of \<open>resolve\<close> and \<open>reject\<close>, calls
  on the client and on the tree model, emitted events, closures pushed on the
  queue, closures made active with their request ids, and calls of a value that is
  not a function.
\<close>

record state =
  pendingRequests :: "request list"
  activeRequest :: "request option"
  timeout :: "nat option"
  callback :: "handler option"
  requestID :: nat
  rootElements :: "string list option"
  nextPromise :: nat
  timers :: "nat list"
  nodeByPathCallback :: "nat option"
  cleared :: "nat list"
  fired :: "nat list"
  settled :: "(nat \<times> outcome) list"
  clientLog :: "client_call list"
  treeLog :: "tree_call list"
  emits :: "emitted list"
  enqueued :: "request list"
  started :: "(nat \<times> request) list"
  faults :: "string list"

definition initial :: state where
  "initial =
     \<lparr>pendingRequests = [], activeRequest = None, timeout = None, callback = None,
      requestID = 0, rootElements = None, nextPromise = 0, timers = [],
      nodeByPathCallback = None, cleared = [], fired = [], settled = [],
      clientLog = [], treeLog = [], emits = [], enqueued = [], started = [],
      faults = []\<rparr>"

definition rootNode :: treenode where
  "rootNode = \<lparr>getPath = [], kind = Root, isStream = False, subscribers = []\<rparr>"

definition newPromise :: "state \<Rightarrow> nat \<times> state" where
  "newPromise st = (nextPromise st, st\<lparr>nextPromise := Suc (nextPromise st)\<rparr>)"

definition resolve :: "nat \<Rightarrow> jsvalue \<Rightarrow> state \<Rightarrow> state" where
  "resolve pid v st = st\<lparr>settled := settled st @ [(pid, Resolved v)]\<rparr>"

definition reject :: "nat \<Rightarrow> error \<Rightarrow> state \<Rightarrow> state" where
  "reject pid e st = st\<lparr>settled := settled st @ [(pid, Rejected e)]\<rparr>"

definition clientCall :: "client_call \<Rightarrow> state \<Rightarrow> state" where
  "clientCall c st = st\<lparr>clientLog := clientLog st @ [c]\<rparr>"

definition sendBERNode :: "message \<Rightarrow> state \<Rightarrow> state" where
  "sendBERNode m st = clientCall (SendBERNode m) st"

definition emit :: "emitted \<Rightarrow> state \<Rightarrow> state" where
  "emit e st = st\<lparr>emits := emits st @ [e]\<rparr>"

definition fault :: "string \<Rightarrow> state \<Rightarrow> state" where
  "fault m st = st\<lparr>faults := faults st @ [m]\<rparr>"

section \<open>The request pipeline\<close>

definition setTimeout :: "nat \<Rightarrow> state \<Rightarrow> state" where
  "setTimeout i st = st\<lparr>timers := timers st @ [i], timeout := Some i\<rparr>"

text \<open>
  \<open>DeviceTree.prototype.clearTimeout\<close> (line 257): only a non-null handle is
  passed to the runtime and then nulled.
\<close>

definition clearTimeout :: "state \<Rightarrow> state" where
  "clearTimeout st =
     (case timeout st of
        None \<Rightarrow> st
      | Some h \<Rightarrow>
          st\<lparr>timers := removeAll h (timers st), cleared := cleared st @ [h],
             timeout := None\<rparr>)"

text \<open>
  \<open>makeRequest\<close> (line 232), \<open>finishRequest\<close> (line 264) and the request
  closures call one another: \<open>makeRequest\<close> invokes the new active request with no
  argument, a request invoked with an error calls \<open>finishRequest\<close>, and
  \<open>finishRequest\<close> calls \<open>makeRequest\<close>. \<open>work r e\<close> is the call of the closure
  \<open>r\<close> with argument \<open>e\<close> (\<open>None\<close> for \<open>undefined\<close>); its equations are the
  closures of \<open>getDirectory\<close> (line 145), \<open>invokeFunction\<close> (line 196),
  \<open>setValue\<close> (line 424) and \<open>getNodeByPath\<close> (line 381).
\<close>

function (sequential) makeRequest :: "state \<Rightarrow> state"
  and finishRequest :: "state \<Rightarrow> state"
  and work :: "request \<Rightarrow> error option \<Rightarrow> state \<Rightarrow> state"
where
  "makeRequest st =
     (if activeRequest st = None \<and> pendingRequests st \<noteq> [] then
        let r = hd (pendingRequests st);
            st1 = st\<lparr>activeRequest := Some r, pendingRequests := tl (pendingRequests st)\<rparr>;
            i = requestID st1;
            st2 = st1\<lparr>requestID := i + 1, started := started st1 @ [(i, r)]\<rparr>;
            st3 = setTimeout i st2
        in work r None st3
      else st)"
| "finishRequest st =
     makeRequest ((clearTimeout (st\<lparr>callback := None\<rparr>))\<lparr>activeRequest := None\<rparr>)"
| "work (GetDirectoryReq pid qnode) (Some e) st = reject pid e (finishRequest st)"
| "work (GetDirectoryReq pid qnode) None st =
     sendBERNode (GetDirectoryMsg qnode) (st\<lparr>callback := Some (GetDirectoryCb pid qnode)\<rparr>)"
| "work (InvokeFunctionReq pid fnNode params) (Some e) st = finishRequest (reject pid e st)"
| "work (InvokeFunctionReq pid fnNode params) None st =
     sendBERNode (InvokeMsg fnNode params) (st\<lparr>callback := Some (InvokeFunctionCb pid)\<rparr>)"
| "work (SetValueReq pid node v) (Some e) st = reject pid e (finishRequest st)"
| "work (SetValueReq pid node v) None st =
     sendBERNode (SetValueMsg node v) (st\<lparr>callback := Some (SetValueCb pid)\<rparr>)"
| "work (GetNodeByPathReq pid path) (Some e) st = finishRequest (reject pid e st)"
| "work (GetNodeByPathReq pid path) None st =
     st\<lparr>treeLog := treeLog st @ [GetNodeByPath path], nodeByPathCallback := Some pid\<rparr>"
  by pat_completeness auto
termination
  by (relation "measure (\<lambda>x. case x of
          Inl st \<Rightarrow> 1
        | Inr (Inl st) \<Rightarrow> 2
        | Inr (Inr (r, e, st)) \<Rightarrow> (case e of None \<Rightarrow> 0 | Some _ \<Rightarrow> 3))") auto

text \<open>\<open>addRequest\<close> (line 251).\<close>

definition addRequest :: "request \<Rightarrow> state \<Rightarrow> state" where
  "addRequest cb st =
     makeRequest
       (st\<lparr>pendingRequests := pendingRequests st @ [cb], enqueued := enqueued st @ [cb]\<rparr>)"

text \<open>
  Modelled from the spec: \<open>cancelCallbacks\<close> of the tree model (ember.js is not
  among the sources). Section 4.1 and testable property 8 say that on a timeout the
  per-node callbacks awaiting the exchange are cancelled; the continuation handed
  over by \<open>getNodeByPath\<close> is such a callback, so it is dropped.
\<close>

definition cancelCallbacks :: "state \<Rightarrow> state" where
  "cancelCallbacks st =
     st\<lparr>treeLog := treeLog st @ [CancelCallbacks], nodeByPathCallback := None\<rparr>"

text \<open>
  \<open>timeoutRequest\<close> (line 272). Calling \<open>self.activeRequest\<close> when it is
  \<open>null\<close> throws a TypeError.
\<close>

definition timeoutRequest :: "nat \<Rightarrow> state \<Rightarrow> state" where
  "timeoutRequest i st =
     (let st1 = cancelCallbacks st
      in case activeRequest st1 of
           None \<Rightarrow> fault ''TypeError: self.activeRequest is not a function'' st1
         | Some r \<Rightarrow> work r (Some (EmberTimeoutError i)) st1)"

section \<open>The callback slot\<close>

text \<open>
  \<open>runCallback h error node\<close> is the call \<open>h(error, node)\<close> of a function stored
  in \<open>self.callback\<close>: the closure of \<open>connect\<close> (line 83), of \<open>getDirectory\<close>
  (line 152), of \<open>invokeFunction\<close> (line 203) and of \<open>setValue\<close> (line 431). The
  \<open>getDirectory\<close> handler calls \<open>self.callback\<close> again, with an error and no
  node, when the requested path is empty and the requested node has no elements. A
  node whose path is empty is the Root, so its elements are \<open>rootElements\<close>.
\<close>

function (sequential) runCallback :: "handler \<Rightarrow> error option \<Rightarrow> fragment option \<Rightarrow> state \<Rightarrow> state" where
  "runCallback (ConnectCb pid) e node st =
     (let st1 = st\<lparr>callback := None\<rparr>
      in case e of
           None \<Rightarrow> resolve pid Undefined st1
         | Some err \<Rightarrow> reject pid err st1)"
| "runCallback (GetDirectoryCb pid qnode) error None st = st"
| "runCallback (GetDirectoryCb pid qnode) (Some e) (Some node) st =
     reject pid e (finishRequest (clearTimeout st))"
| "runCallback (GetDirectoryCb pid qnode) None (Some node) st =
     (if getPath qnode = [] \<and> (rootElements st = None \<or> rootElements st = Some []) then
        (case callback st of
           None \<Rightarrow> fault ''TypeError: self.callback is not a function'' st
         | Some h \<Rightarrow> runCallback h (Some (Error ''Invalid qnode for getDirectory'')) None st)
      else
        let requestedPath =
              (if getPath qnode = [] then hd (the (rootElements st)) else getPath qnode)
        in if responseComplete requestedPath (elements node)
           then resolve pid (Fragment node) (finishRequest (clearTimeout st))
           else st)"
| "runCallback (InvokeFunctionCb pid) error result st =
     (let st1 = clearTimeout st;
          st2 = (case error of
                   Some e \<Rightarrow> reject pid e st1
                 | None \<Rightarrow>
                     resolve pid (case result of None \<Rightarrow> Undefined | Some r \<Rightarrow> Fragment r) st1)
      in finishRequest st2)"
| "runCallback (SetValueCb pid) error node st =
     (let st1 = finishRequest st
      in case error of
           Some e \<Rightarrow> reject pid e st1
         | None \<Rightarrow>
             resolve pid (case node of None \<Rightarrow> Undefined | Some r \<Rightarrow> Fragment r) st1)"
  by pat_completeness auto
termination
  by (relation "measure (\<lambda>(h, e, n, st). case n of None \<Rightarrow> 0 | Some _ \<Rightarrow> 1)") auto

section \<open>The operations of the device\<close>

text \<open>
  Every operation that returns a promise yields the promise's number with the new
  state. \<open>connect\<close> (line 81) takes the answer of \<open>client.isConnected()\<close> as an
  argument; the default timeout is 2.
\<close>

definition connect :: "nat option \<Rightarrow> bool \<Rightarrow> state \<Rightarrow> nat \<times> state" where
  "connect tmo isConnected st =
     (let (pid, st1) = newPromise st;
          st2 = st1\<lparr>callback := Some (ConnectCb pid)\<rparr>;
          st3 = (if isConnected then clientCall ClientDisconnect st2 else st2)
      in (pid, clientCall (ClientConnect (case tmo of None \<Rightarrow> 2 | Some t \<Rightarrow> t)) st3))"

definition disconnect :: "state \<Rightarrow> state" where
  "disconnect st = clientCall ClientDisconnect st"

text \<open>
  Modelled from the spec: \<open>Root.clear\<close> of the tree model (ember.js is not among
  the sources); sections 3 and 4.4 say that a root-level directory request clears
  the Root, which leaves it without elements.
\<close>

definition rootClear :: "state \<Rightarrow> state" where
  "rootClear st = st\<lparr>treeLog := treeLog st @ [Clear], rootElements := None\<rparr>"

text \<open>\<open>getDirectory\<close> (line 138).\<close>

definition getDirectory :: "treenode option \<Rightarrow> state \<Rightarrow> nat \<times> state" where
  "getDirectory qnode st =
     (let st1 = (case qnode of None \<Rightarrow> rootClear st | Some n \<Rightarrow> st);
          q = (case qnode of None \<Rightarrow> rootNode | Some n \<Rightarrow> n);
          (pid, st2) = newPromise st1
      in (pid, addRequest (GetDirectoryReq pid q) st2))"

text \<open>\<open>invokeFunction\<close> (line 193).\<close>

definition invokeFunction :: "treenode \<Rightarrow> string \<Rightarrow> state \<Rightarrow> nat \<times> state" where
  "invokeFunction fnNode params st =
     (let (pid, st1) = newPromise st
      in (pid, addRequest (InvokeFunctionReq pid fnNode params) st1))"

text \<open>
  \<open>setValue\<close> (line 415): \<open>node instanceof ember.Parameter\<close> and
  \<open>node instanceof ember.QualifiedParameter\<close> are tests on the node's kind.
\<close>

definition setValue :: "treenode \<Rightarrow> string \<Rightarrow> state \<Rightarrow> nat \<times> state" where
  "setValue node v st =
     (let (pid, st1) = newPromise st
      in if kind node \<noteq> Parameter \<and> kind node \<noteq> QualifiedParameter
         then (pid, reject pid (EmberAccessError ''not a property'') st1)
         else (pid, addRequest (SetValueReq pid node v) st1))"

text \<open>
  \<open>getNodeByPath\<close> (line 374): a string path is split at the slashes.
\<close>

definition getNodeByPath :: "string + string list \<Rightarrow> state \<Rightarrow> nat \<times> state" where
  "getNodeByPath path st =
     (let p = (case path of Inl s \<Rightarrow> split (CHR ''/'') s | Inr segs \<Rightarrow> segs);
          (pid, st1) = newPromise st
      in (pid, addRequest (GetNodeByPathReq pid p) st1))"

text \<open>
  The continuation that \<open>getNodeByPath\<close> hands to the tree model (line 387), called
  by the tree model with an error or with the node found.
\<close>

definition nodeByPathDone :: "error option \<Rightarrow> treenode option \<Rightarrow> state \<Rightarrow> state" where
  "nodeByPathDone error node st =
     (case nodeByPathCallback st of
        None \<Rightarrow> st
      | Some pid \<Rightarrow>
          let st1 = st\<lparr>nodeByPathCallback := None\<rparr>;
              st2 = (case error of
                       Some e \<Rightarrow> reject pid e st1
                     | None \<Rightarrow>
                         resolve pid (case node of None \<Rightarrow> Undefined | Some n \<Rightarrow> TreeNode n) st1)
          in finishRequest st2)"

text \<open>
  \<open>subscribe\<close> (line 399) and \<open>unsubscribe\<close> (line 407). Modelled from the spec:
  \<open>addCallback\<close> of the tree model (ember.js is not among the sources), which
  section 6 describes as registering a value-change callback on a node: the
  callback is added to the node's list.
\<close>

definition addCallback :: "nat \<Rightarrow> treenode \<Rightarrow> treenode" where
  "addCallback cb node = node\<lparr>subscribers := subscribers node @ [cb]\<rparr>"

definition subscribe :: "treenode \<Rightarrow> nat \<Rightarrow> treenode" where
  "subscribe node cb =
     (if kind node = Parameter \<and> isStream node then node else addCallback cb node)"

definition unsubscribe :: "treenode \<Rightarrow> nat \<Rightarrow> treenode" where
  "unsubscribe node cb =
     (if kind node = Parameter \<and> isStream node then node else addCallback cb node)"

section \<open>Events\<close>

text \<open>
  The listeners that the constructor installs on the client (lines 22 to 60), and
  the firing of a timer. In \<open>onEmberTree\<close>, \<open>handleRoot\<close> merges the fragment into
  the tree (see the merge engine below); of its effect the handlers only read the
  paths of the Root's elements afterwards, given here as \<open>merged\<close>. A timer fires
  only while it is armed.
\<close>

definition onConnecting :: "state \<Rightarrow> state" where
  "onConnecting st = emit Connecting st"

definition onConnected :: "state \<Rightarrow> state" where
  "onConnected st =
     (let st1 = emit Connected st
      in case callback st1 of
           None \<Rightarrow> st1
         | Some h \<Rightarrow> runCallback h None None st1)"

definition onDisconnected :: "state \<Rightarrow> state" where
  "onDisconnected st = emit Disconnected st"

definition onError :: "error option \<Rightarrow> state \<Rightarrow> state" where
  "onError e st =
     (let st1 = (case callback st of
                   None \<Rightarrow> st
                 | Some h \<Rightarrow> runCallback h e None st)
      in emit (ErrorEvent e) st1)"

definition onEmberTree :: "fragment \<Rightarrow> string list option \<Rightarrow> state \<Rightarrow> state" where
  "onEmberTree root merged st =
     (let st1 = (if isInvocationResult root
                 then emit (InvocationResultEvent root) st
                 else st\<lparr>rootElements := merged\<rparr>)
      in case callback st1 of
           None \<Rightarrow> st1
         | Some h \<Rightarrow> runCallback h None (Some root) st1)"

definition onTimer :: "nat \<Rightarrow> state \<Rightarrow> state" where
  "onTimer i st =
     (if i \<in> set (timers st)
      then timeoutRequest i (st\<lparr>timers := removeAll i (timers st), fired := fired st @ [i]\<rparr>)
      else st)"

datatype event =
    Connect "nat option" bool
  | Disconnect
  | GetDirectory "treenode option"
  | InvokeFunction treenode string
  | SetValue treenode string
  | GetNodeByPathCall "string + string list"
  | ClientConnecting
  | ClientConnected
  | ClientDisconnected
  | ClientError "error option"
  | EmberTree fragment "string list option"
  | TimerFires nat
  | NodeByPathDone "error option" "treenode option"

fun step :: "state \<Rightarrow> event \<Rightarrow> state" where
  "step st (Connect tmo c) = snd (connect tmo c st)"
| "step st Disconnect = disconnect st"
| "step st (GetDirectory qnode) = snd (getDirectory qnode st)"
| "step st (InvokeFunction fnNode params) = snd (invokeFunction fnNode params st)"
| "step st (SetValue node v) = snd (setValue node v st)"
| "step st (GetNodeByPathCall path) = snd (getNodeByPath path st)"
| "step st ClientConnecting = onConnecting st"
| "step st ClientConnected = onConnected st"
| "step st ClientDisconnected = onDisconnected st"
| "step st (ClientError e) = onError e st"
| "step st (EmberTree root merged) = onEmberTree root merged st"
| "step st (TimerFires i) = onTimer i st"
| "step st (NodeByPathDone error node) = nodeByPathDone error node st"

definition run :: "event list \<Rightarrow> state" where
  "run evs = foldl step initial evs"

section \<open>Invariants of the pipeline\<close>

text \<open>
  The promise number captured by a request closure identifies the closure.
\<close>

fun promiseOf :: "request \<Rightarrow> nat" where
  "promiseOf (GetDirectoryReq pid qnode) = pid"
| "promiseOf (InvokeFunctionReq pid fnNode params) = pid"
| "promiseOf (SetValueReq pid node v) = pid"
| "promiseOf (GetNodeByPathReq pid path) = pid"

text \<open>
  \<open>timersOk\<close>: no timer is armed but the one whose handle is stored, and a stored
  handle belongs to the latest request id, which is still active.
  \<open>clearedOk\<close>: every request id handed out so far has had its timer cleared
  once, except the one whose handle is still stored; a timer that fired is no longer
  armed. \<open>queueOk\<close>: the closures made active so far, followed by the queue, are
  the closures pushed so far, in order; the ids handed out are \<open>0, 1, 2, ...\<close>; the
  active request is the one started last; no closure was pushed twice.
\<close>

definition timersOk :: "state \<Rightarrow> bool" where
  "timersOk st =
     (distinct (timers st) \<and> set (timers st) \<subseteq> set_option (timeout st) \<and>
      (\<forall>h. timeout st = Some h \<longrightarrow> Suc h = requestID st \<and> activeRequest st \<noteq> None))"

definition clearedOk :: "state \<Rightarrow> bool" where
  "clearedOk st =
     (distinct (cleared st) \<and>
      (\<forall>i. i \<in> set (cleared st) \<longleftrightarrow> i < requestID st \<and> timeout st \<noteq> Some i) \<and>
      distinct (fired st) \<and>
      (\<forall>i \<in> set (fired st). i < requestID st \<and> i \<notin> set (timers st)))"

definition queueOk :: "state \<Rightarrow> bool" where
  "queueOk st =
     (map snd (started st) @ pendingRequests st = enqueued st \<and>
      map fst (started st) = [0..<requestID st] \<and>
      (\<forall>r. activeRequest st = Some r \<longrightarrow> started st \<noteq> [] \<and> snd (last (started st)) = r) \<and>
      distinct (map promiseOf (enqueued st)) \<and>
      (\<forall>r \<in> set (enqueued st). promiseOf r < nextPromise st))"

text \<open>
  \<open>consistent\<close> holds throughout, also in the middle of a handler;
  \<open>settledState\<close> holds between two events: an idle pipeline has an empty queue,
  and an active request has its timer armed.
\<close>

definition consistent :: "state \<Rightarrow> bool" where
  "consistent st = (timersOk st \<and> clearedOk st \<and> queueOk st)"

definition settledState :: "state \<Rightarrow> bool" where
  "settledState st =
     (consistent st \<and>
      (activeRequest st = None \<longrightarrow> pendingRequests st = []) \<and>
      (activeRequest st \<noteq> None \<longrightarrow> timeout st \<noteq> None) \<and>
      (\<forall>h. timeout st = Some h \<longrightarrow> h \<in> set (timers st)))"

section \<open>The merge engine\<close>

text \<open>
  An element of an inbound fragment is either qualified, addressed by its full
  path, or addressed by its number; \<open>getChildren\<close> is \<open>None\<close> when the element has
  no children (\<open>null\<close>). A qualified element has no \<open>number\<close> field.
\<close>

datatype inode =
    Qualified string "inode list option"
  | Numbered int "inode list option"

fun isQualified :: "inode \<Rightarrow> bool" where
  "isQualified (Qualified p ch) = True"
| "isQualified (Numbered k ch) = False"

fun getChildren :: "inode \<Rightarrow> inode list option" where
  "getChildren (Qualified p ch) = ch"
| "getChildren (Numbered k ch) = ch"

fun number :: "inode \<Rightarrow> int option" where
  "number (Qualified p ch) = None"
| "number (Numbered k ch) = Some k"

text \<open>
  The persistent tree belongs to the tree model (ember.js), which is not among the
  sources. The merge engine is therefore written over any tree model: a type
  \<open>'s\<close> of trees, a type \<open>'r\<close> of references to elements of a tree, and the five
  methods that \<open>device.js\<close> calls. \<open>addChild\<close> yields the reference under which
  the attached node is found afterwards, \<open>update\<close> the callbacks registered on the
  element. Every call is recorded with its receiver.
\<close>

datatype 'r tree_op =
    GetElementByPath 'r string
  | GetElementByNumber 'r "int option"
  | AddChild 'r inode
  | Update 'r inode
  | UpdateRoot

record ('s, 'r, 'c) tree_model =
  getElementByPath :: "'s \<Rightarrow> 'r \<Rightarrow> string \<Rightarrow> 'r option"
  getElementByNumber :: "'s \<Rightarrow> 'r \<Rightarrow> int option \<Rightarrow> 'r option"
  addChild :: "'s \<Rightarrow> 'r \<Rightarrow> inode \<Rightarrow> 's \<times> 'r"
  update :: "'s \<Rightarrow> 'r \<Rightarrow> inode \<Rightarrow> 's \<times> 'c list"
  updateRoot :: "'s \<Rightarrow> inode list option \<Rightarrow> 's \<times> 'c list"

record ('s, 'r, 'c) mstate =
  tree :: 's
  valueChanges :: "inode list"
  calls :: "'r tree_op list"
  firedCallbacks :: "'c list"

definition called :: "'r tree_op \<Rightarrow> ('s, 'r, 'c) mstate \<Rightarrow> ('s, 'r, 'c) mstate" where
  "called c ms = ms\<lparr>calls := calls ms @ [c]\<rparr>"

definition emitValueChange :: "inode \<Rightarrow> ('s, 'r, 'c) mstate \<Rightarrow> ('s, 'r, 'c) mstate" where
  "emitValueChange n ms = ms\<lparr>valueChanges := valueChanges ms @ [n]\<rparr>"

definition lookupPath ::
  "('s, 'r, 'c) tree_model \<Rightarrow> 'r \<Rightarrow> string \<Rightarrow> ('s, 'r, 'c) mstate
     \<Rightarrow> 'r option \<times> ('s, 'r, 'c) mstate" where
  "lookupPath m r p ms =
     (getElementByPath m (tree ms) r p, called (GetElementByPath r p) ms)"

definition lookupNumber ::
  "('s, 'r, 'c) tree_model \<Rightarrow> 'r \<Rightarrow> int option \<Rightarrow> ('s, 'r, 'c) mstate
     \<Rightarrow> 'r option \<times> ('s, 'r, 'c) mstate" where
  "lookupNumber m r k ms =
     (getElementByNumber m (tree ms) r k, called (GetElementByNumber r k) ms)"

definition doAddChild ::
  "('s, 'r, 'c) tree_model \<Rightarrow> 'r \<Rightarrow> inode \<Rightarrow> ('s, 'r, 'c) mstate
     \<Rightarrow> 'r \<times> ('s, 'r, 'c) mstate" where
  "doAddChild m parent node ms =
     (let (t, el) = addChild m (tree ms) parent node
      in (el, called (AddChild parent node) (ms\<lparr>tree := t\<rparr>)))"

definition doUpdate ::
  "('s, 'r, 'c) tree_model \<Rightarrow> 'r \<Rightarrow> inode \<Rightarrow> ('s, 'r, 'c) mstate
     \<Rightarrow> 'c list \<times> ('s, 'r, 'c) mstate" where
  "doUpdate m element node ms =
     (let (t, cbs) = update m (tree ms) element node
      in (cbs, called (Update element node) (ms\<lparr>tree := t\<rparr>)))"

text \<open>
  \<open>handleNode\<close> (line 348). \<open>resolveNumbered\<close> is its first part (lines 352 to
  358): the element \<open>n\<close> that the node resolves to, found by number under
  \<open>parent\<close> and updated, or else the node itself, attached under \<open>parent\<close>. The
  loop over the children makes no difference between qualified and number-addressed
  children.
\<close>

definition resolveNumbered ::
  "('s, 'r, 'c) tree_model \<Rightarrow> 'r \<Rightarrow> inode \<Rightarrow> ('s, 'r, 'c) mstate
     \<Rightarrow> 'r \<times> 'c list \<times> ('s, 'r, 'c) mstate" where
  "resolveNumbered m parent node ms =
     (let (found, ms0) = lookupNumber m parent (number node) ms
      in case found of
           None \<Rightarrow> (let (n, ms1) = doAddChild m parent node ms0 in (n, [], ms1))
         | Some n \<Rightarrow> (let (callbacks, ms1) = doUpdate m n node ms0 in (n, callbacks, ms1)))"

function (sequential) handleNode ::
    "('s, 'r, 'c) tree_model \<Rightarrow> 'r \<Rightarrow> inode \<Rightarrow> ('s, 'r, 'c) mstate
       \<Rightarrow> 'c list \<times> ('s, 'r, 'c) mstate"
  and handleNodeChildren ::
    "('s, 'r, 'c) tree_model \<Rightarrow> 'r \<Rightarrow> inode list \<Rightarrow> ('s, 'r, 'c) mstate
       \<Rightarrow> 'c list \<times> ('s, 'r, 'c) mstate"
where
  "handleNode m parent node ms =
     (let (n, callbacks, ms1) = resolveNumbered m parent node ms
      in case getChildren node of
           Some children \<Rightarrow>
             (let (cbs, ms2) = handleNodeChildren m n children ms1 in (callbacks @ cbs, ms2))
         | None \<Rightarrow> (callbacks, emitValueChange node ms1))"
| "handleNodeChildren m n [] ms = ([], ms)"
| "handleNodeChildren m n (c # cs) ms =
     (let (cbs1, ms1) = handleNode m n c ms;
          (cbs2, ms2) = handleNodeChildren m n cs ms1
      in (cbs1 @ cbs2, ms2))"
  by pat_completeness auto
termination
  by (relation "measure (\<lambda>x. case x of
          Inl (m, parent, node, ms) \<Rightarrow> size node
        | Inr (m, n, cs, ms) \<Rightarrow> size_list size cs)")
     (auto elim: getChildren.elims)

text \<open>
  \<open>handleQualifiedNode\<close> (line 303), called with a qualified node
  \<open>Qualified p ch\<close>. \<open>resolveQualified\<close> is its first part (lines 307 to 329): the
  element that the node resolves to, or \<open>None\<close> for the early return of line 324.
  The node is looked up by its path on \<open>parent\<close>; when that finds nothing it is
  attached under the Root (a path of one segment) or under the element that the Root
  finds for the path without its last segment.
\<close>

definition resolveQualified ::
  "('s, 'r, 'c) tree_model \<Rightarrow> 'r \<Rightarrow> 'r \<Rightarrow> inode \<Rightarrow> string \<Rightarrow> ('s, 'r, 'c) mstate
     \<Rightarrow> 'r option \<times> 'c list \<times> ('s, 'r, 'c) mstate" where
  "resolveQualified m root parent node p ms =
     (let (found, ms0) = lookupPath m parent p ms
      in case found of
           Some element \<Rightarrow>
             (let (callbacks, ms1) = doUpdate m element node (emitValueChange node ms0)
              in (Some element, callbacks, ms1))
         | None \<Rightarrow>
             (let segs = split (CHR ''.'') p
              in if length segs = 1
                 then (let (el, ms1) = doAddChild m root node ms0 in (Some el, [], ms1))
                 else (let (parent', ms1) = lookupPath m root (join ''.'' (butlast segs)) ms0
                       in case parent' of
                            None \<Rightarrow> (None, [], ms1)
                          | Some pr \<Rightarrow>
                              (let (el, ms2) = doAddChild m pr node ms1
                               in (Some el, [], ms2)))))"

function (sequential) handleQualifiedNode ::
    "('s, 'r, 'c) tree_model \<Rightarrow> 'r \<Rightarrow> 'r \<Rightarrow> string \<Rightarrow> inode list option
       \<Rightarrow> ('s, 'r, 'c) mstate \<Rightarrow> 'c list \<times> ('s, 'r, 'c) mstate"
  and handleQualifiedChildren ::
    "('s, 'r, 'c) tree_model \<Rightarrow> 'r \<Rightarrow> 'r \<Rightarrow> inode list
       \<Rightarrow> ('s, 'r, 'c) mstate \<Rightarrow> 'c list \<times> ('s, 'r, 'c) mstate"
where
  "handleQualifiedNode m root parent p ch ms =
     (case resolveQualified m root parent (Qualified p ch) p ms of
        (None, callbacks, ms1) \<Rightarrow> (callbacks, ms1)
      | (Some element, callbacks, ms1) \<Rightarrow>
          (case ch of
             None \<Rightarrow> (callbacks, ms1)
           | Some children \<Rightarrow>
               (let (cbs, ms2) = handleQualifiedChildren m root element children ms1
                in (callbacks @ cbs, ms2))))"
| "handleQualifiedChildren m root element [] ms = ([], ms)"
| "handleQualifiedChildren m root element (c # cs) ms =
     (let (cbs1, ms1) =
            (case c of
               Qualified p ch \<Rightarrow> handleQualifiedNode m root element p ch ms
             | Numbered k ch \<Rightarrow> handleNode m element c ms);
          (cbs2, ms2) = handleQualifiedChildren m root element cs ms1
      in (cbs1 @ cbs2, ms2))"
  by pat_completeness auto
termination
  by (relation "measure (\<lambda>x. case x of
          Inl (m, root, parent, p, ch, ms) \<Rightarrow> size_option (size_list size) ch
        | Inr (m, root, element, cs, ms) \<Rightarrow> size_list size cs)")
     auto

text \<open>
  \<open>handleRoot\<close> (line 278). Its loop over the fragment's elements (lines 286 to
  293) is the loop of \<open>handleQualifiedNode\<close> with the Root in the place of the
  resolved element. The collected callbacks are fired only when the fragment has an
  element list.
\<close>

definition handleRoot ::
  "('s, 'r, 'c) tree_model \<Rightarrow> 'r \<Rightarrow> inode list option \<Rightarrow> ('s, 'r, 'c) mstate
     \<Rightarrow> ('s, 'r, 'c) mstate" where
  "handleRoot m root fragmentElements ms =
     (let (t, callbacks) = updateRoot m (tree ms) fragmentElements;
          ms0 = called UpdateRoot (ms\<lparr>tree := t\<rparr>)
      in case fragmentElements of
           None \<Rightarrow> ms0
         | Some els \<Rightarrow>
             (let (cbs, ms1) = handleQualifiedChildren m root root els ms0
              in ms1\<lparr>firedCallbacks := firedCallbacks ms1 @ callbacks @ cbs\<rparr>))"

text \<open>
  The lookup that serves an element \<open>c\<close> when it is handled with receiver \<open>r\<close>
  by the loop of \<open>handleRoot\<close> and \<open>handleQualifiedNode\<close>.
\<close>

definition lookupFor :: "'r \<Rightarrow> inode \<Rightarrow> 'r tree_op" where
  "lookupFor r c =
     (case c of
        Qualified p ch \<Rightarrow> GetElementByPath r p
      | Numbered k ch \<Rightarrow> GetElementByNumber r (Some k))"

text \<open>
  Modelled from the spec: a tree model to run the merge engine on (ember.js is not
  among the sources). Following section 3, an element is identified by the numbers
  on the way from the Root to it, and its path is these numbers joined by dots. The
  tree is the list of its elements; the Root is \<open>[]\<close>. A lookup by path finds an
  element of the tree below the receiver; a lookup by number finds a direct child of
  the receiver; \<open>addChild\<close> attaches the node with everything below it;
  \<open>update\<close> returns one callback, named after the element.
\<close>

definition parseSegment :: "string \<Rightarrow> int" where
  "parseSegment s = foldl (\<lambda>a c. 10 * a + (int (of_char c) - 48)) 0 s"

definition parsePath :: "string \<Rightarrow> int list" where
  "parsePath p = map parseSegment (split (CHR ''.'') p)"

fun addresses :: "int list \<Rightarrow> inode \<Rightarrow> int list list"
  and addressesList :: "int list \<Rightarrow> inode list \<Rightarrow> int list list"
where
  "addresses base (Qualified p ch) =
     parsePath p # (case ch of None \<Rightarrow> [] | Some cs \<Rightarrow> addressesList (parsePath p) cs)"
| "addresses base (Numbered k ch) =
     (base @ [k]) # (case ch of None \<Rightarrow> [] | Some cs \<Rightarrow> addressesList (base @ [k]) cs)"
| "addressesList base [] = []"
| "addressesList base (c # cs) = addresses base c @ addressesList base cs"

definition listTree :: "(int list list, int list, int list) tree_model" where
  "listTree =
     \<lparr>getElementByPath = (\<lambda>t r p.
         if parsePath p \<in> set t \<and> take (length r) (parsePath p) = r
         then Some (parsePath p) else None),
      getElementByNumber = (\<lambda>t r k.
         case k of
           None \<Rightarrow> None
         | Some i \<Rightarrow> if r @ [i] \<in> set t then Some (r @ [i]) else None),
      addChild = (\<lambda>t r node. (t @ addresses r node, hd (addresses r node))),
      update = (\<lambda>t r node. (t, [r])),
      updateRoot = (\<lambda>t els. (t, []))\<rparr>"

definition emptyMerge :: "int list list \<Rightarrow> (int list list, int list, int list) mstate" where
  "emptyMerge t = \<lparr>tree = t, valueChanges = [], calls = [], firedCallbacks = []\<rparr>"

section \<open>Directory expansion\<close>

text \<open>
  \<open>expand\<close> (line 97) walks the tree with one \<open>getDirectory\<close> per node. What the
  device answers is part of the node here: \<open>directory\<close> is the outcome of
  \<open>getDirectory\<close> for the node (\<open>Inl e\<close> when the promise rejects with \<open>e\<close>,
  \<open>Inr f\<close> when it resolves, which it does with the fragment \<open>f\<close> that answered
  it, line 181), and \<open>childNodes\<close> is what
  \<open>getChildren()\<close> yields once that request has resolved. \<open>attachedError\<close> is the
  node's \<open>error\<close> field. The numbers of the nodes for which \<open>getDirectory\<close> was
  called are recorded in order. A promise chain \<open>p.then(...)\<close> runs its steps one
  after the other, so the loop over the children is a recursion that threads the
  record through.
\<close>

datatype dnode =
  DNode (nodeNumber: int) (isParameter: bool) (directory: "error + fragment")
        (childNodes: "dnode list option") (attachedError: "error option")

definition requestDirectory :: "dnode \<Rightarrow> int list \<Rightarrow> outcome \<times> int list" where
  "requestDirectory node visited =
     ((case directory node of Inl e \<Rightarrow> Rejected e | Inr f \<Rightarrow> Resolved (Fragment f)),
      visited @ [nodeNumber node])"

function (sequential) expandNode :: "dnode \<Rightarrow> int list \<Rightarrow> outcome \<times> dnode \<times> int list"
  and expandChildren :: "dnode list \<Rightarrow> int list \<Rightarrow> dnode list \<times> int list"
where
  "expandNode node visited =
     (if isParameter node
      then (let (out, visited1) = requestDirectory node visited in (out, node, visited1))
      else
        (let (out, visited1) = requestDirectory node visited
         in case out of
              Rejected e \<Rightarrow> (Rejected e, node, visited1)
            | Resolved res \<Rightarrow>
                (case childNodes node of
                   None \<Rightarrow> (Resolved Undefined, node, visited1)
                 | Some cs \<Rightarrow>
                     if res = Undefined then (Resolved Undefined, node, visited1)
                     else (let (cs', visited2) = expandChildren cs visited1
                           in (Resolved Undefined,
                               DNode (nodeNumber node) (isParameter node) (directory node)
                                 (Some cs') (attachedError node),
                               visited2)))))"
| "expandChildren [] visited = ([], visited)"
| "expandChildren (child # rest) visited =
     (if isParameter child
      then (let (rest', visited1) = expandChildren rest visited in (child # rest', visited1))
      else
        (let (out, child1, visited1) = expandNode child visited;
             child2 = (case out of
                         Rejected e \<Rightarrow>
                           DNode (nodeNumber child1) (isParameter child1) (directory child1)
                             (childNodes child1) (Some e)
                       | Resolved v \<Rightarrow> child1);
             (rest', visited2) = expandChildren rest visited1
         in (child2 # rest', visited2)))"
  by pat_completeness auto
termination
  by (relation "measure (\<lambda>x. case x of
          Inl (node, visited) \<Rightarrow> size node
        | Inr (cs, visited) \<Rightarrow> size_list size cs)")
     (auto, (case_tac node, simp)+)

text \<open>
  \<open>expand\<close> itself: a \<open>null\<close> node is rejected at once. The children of a node
  are nodes, so the test matters at the entry only.
\<close>

definition expand :: "dnode option \<Rightarrow> int list \<Rightarrow> outcome \<times> dnode option \<times> int list" where
  "expand node visited =
     (case node of
        None \<Rightarrow> (Rejected (Error ''Invalid null node''), None, visited)
      | Some n \<Rightarrow>
          (let (out, n', visited') = expandNode n visited in (out, Some n', visited')))"

section \<open>Example data\<close>

text \<open>
  A container node with path \<open>1.2\<close>, a parameter with path \<open>1.2.1\<close>, and the
  state in which a directory request for the former is the active request.
\<close>

definition node12 :: treenode where
  "node12 = \<lparr>getPath = ''1.2'', kind = Node, isStream = False, subscribers = []\<rparr>"

definition param121 :: treenode where
  "param121 = \<lparr>getPath = ''1.2.1'', kind = Parameter, isStream = False, subscribers = []\<rparr>"

definition awaiting12 :: state where
  "awaiting12 =
     \<lparr>pendingRequests = [], activeRequest = Some (GetDirectoryReq 0 node12),
      timeout = Some 0, callback = Some (GetDirectoryCb 0 node12),
      requestID = 1, rootElements = None, nextPromise = 1, timers = [0],
      nodeByPathCallback = None, cleared = [], fired = [], settled = [],
      clientLog = [SendBERNode (GetDirectoryMsg node12)], treeLog = [], emits = [],
      enqueued = [GetDirectoryReq 0 node12], started = [(0, GetDirectoryReq 0 node12)],
      faults = []\<rparr>"

section \<open>Unfolding the pipeline\<close>

text \<open>
  The equations of \<open>makeRequest\<close> and \<open>finishRequest\<close> are unfolded on demand
  only. \<open>pipeline_defs\<close> collects what evaluates a run of events on a given
  state.
\<close>

declare makeRequest.simps [simp del] finishRequest.simps [simp del]

lemmas pipeline_defs =
  run_def initial_def makeRequest.simps finishRequest.simps addRequest_def newPromise_def
  setTimeout_def clearTimeout_def sendBERNode_def clientCall_def resolve_def reject_def
  emit_def fault_def cancelCallbacks_def timeoutRequest_def rootClear_def rootNode_def
  connect_def disconnect_def getDirectory_def invokeFunction_def setValue_def
  getNodeByPath_def nodeByPathDone_def onConnecting_def onConnected_def onDisconnected_def
  onError_def onEmberTree_def onTimer_def Let_def

lemma run_getDirectory_node12: "run [GetDirectory (Some node12)] = awaiting12"
  by (simp add: pipeline_defs awaiting12_def)

section \<open>Facts about paths\<close>

lemma lastIndexOf_absent: "c \<notin> set s \<Longrightarrow> lastIndexOf s c = - 1"
  by (induction s) (auto simp: Let_def)

lemma lastIndexOf_neg: "lastIndexOf s c < 0 \<longleftrightarrow> c \<notin> set s"
  by (induction s) (auto simp: Let_def)

lemma lastIndexOf_append:
  "c \<notin> set seg \<Longrightarrow> lastIndexOf (a @ c # seg) c = int (length a)"
  by (induction a) (auto simp: Let_def lastIndexOf_absent)

lemma lastIndexOf_split:
  "lastIndexOf s c = int n \<Longrightarrow>
     \<exists>seg. s = take n s @ c # seg \<and> c \<notin> set seg \<and> n < length s"
proof (induction s arbitrary: n)
  case Nil
  then show ?case by simp
next
  case (Cons x xs)
  show ?case
  proof (cases "0 \<le> lastIndexOf xs c")
    case True
    with Cons.prems obtain m where m: "n = Suc m" "lastIndexOf xs c = int m"
      by (cases n) (auto simp: Let_def)
    from Cons.IH[OF m(2)] m(1) show ?thesis by auto
  next
    case False
    with Cons.prems have "x = c" "n = 0"
      by (auto simp: Let_def split: if_splits)
    moreover from False have "c \<notin> set xs"
      using lastIndexOf_neg[of xs c] by simp
    ultimately show ?thesis by simp
  qed
qed

lemma isDirectSubPathOf_iff:
  "isDirectSubPathOf path parent \<longleftrightarrow>
     (\<exists>seg. CHR ''.'' \<notin> set seg \<and> path = parent @ ''.'' @ seg)"
proof
  assume h: "isDirectSubPathOf path parent"
  then have l: "lastIndexOf path (CHR ''.'') = int (length parent)"
    and s: "take (length parent) path = parent"
    by (simp_all add: isDirectSubPathOf_def startsWith_def)
  from lastIndexOf_split[OF l] s
  show "\<exists>seg. CHR ''.'' \<notin> set seg \<and> path = parent @ ''.'' @ seg"
    by auto
next
  assume "\<exists>seg. CHR ''.'' \<notin> set seg \<and> path = parent @ ''.'' @ seg"
  then show "isDirectSubPathOf path parent"
    by (auto simp: isDirectSubPathOf_def startsWith_def lastIndexOf_append)
qed

lemma split_nonempty: "split c s \<noteq> []"
  by (induction s) auto

lemma split_append_sep: "split c (a @ c # b) = split c a @ split c b"
  by (induction a) (auto simp: split_nonempty)

lemma split_no_sep: "c \<notin> set s \<Longrightarrow> split c s = [s]"
  by (induction s) auto

lemma join_split: "join [c] (split c s) = s"
proof (induction s)
  case Nil
  then show ?case by simp
next
  case (Cons x xs)
  obtain r rs where r: "split c xs = r # rs"
    using split_nonempty[of c xs] by (cases "split c xs") auto
  with Cons show ?case by (cases rs) auto
qed

lemma join_snoc: "ss \<noteq> [] \<Longrightarrow> join sep (ss @ [s]) = join sep ss @ sep @ s"
  by (induction sep ss rule: join.induct) auto

lemma set_split_no_sep: "s \<in> set (split c t) \<Longrightarrow> c \<notin> set s"
proof (induction t arbitrary: s)
  case Nil
  then show ?case by simp
next
  case (Cons x xs)
  obtain r rs where r: "split c xs = r # rs"
    using split_nonempty[of c xs] by (cases "split c xs") auto
  with Cons show ?case by (auto split: if_splits)
qed

lemma isDirectChildPath_iff:
  "isDirectChildPath parent path \<longleftrightarrow>
     (\<exists>seg. CHR ''.'' \<notin> set seg \<and> path = parent @ ''.'' @ seg)"
proof
  assume h: "isDirectChildPath parent path"
  let ?ss = "split (CHR ''.'') path"
  have ne: "?ss \<noteq> []" by (rule split_nonempty)
  have b: "butlast ?ss = split (CHR ''.'') parent"
    using h by (simp add: isDirectChildPath_def)
  have "?ss = butlast ?ss @ [last ?ss]" using ne by simp
  then have eq: "?ss = split (CHR ''.'') parent @ [last ?ss]" using b by simp
  have "path = join ''.'' ?ss" by (simp add: join_split)
  also have "\<dots> = join ''.'' (split (CHR ''.'') parent @ [last ?ss])"
    using eq by simp
  also have "\<dots> = parent @ ''.'' @ last ?ss"
    by (simp add: join_snoc split_nonempty join_split)
  finally have "path = parent @ ''.'' @ last ?ss" .
  moreover have "CHR ''.'' \<notin> set (last ?ss)"
    using set_split_no_sep[of "last ?ss" "CHR ''.''" path] ne by simp
  ultimately show "\<exists>seg. CHR ''.'' \<notin> set seg \<and> path = parent @ ''.'' @ seg"
    by blast
next
  assume "\<exists>seg. CHR ''.'' \<notin> set seg \<and> path = parent @ ''.'' @ seg"
  then show "isDirectChildPath parent path"
    by (auto simp: isDirectChildPath_def split_append_sep split_no_sep)
qed

lemma isDirectSubPathOf_is_child:
  "isDirectSubPathOf path parent = isDirectChildPath parent path"
  by (simp add: isDirectSubPathOf_iff isDirectChildPath_iff)

lemma responseComplete_iff:
  "responseComplete P nodeElements \<longleftrightarrow>
     (\<exists>els. nodeElements = Some els \<and>
        (\<forall>p \<in> set els. p = P \<or> isDirectChildPath P p))"
  by (cases nodeElements)
     (simp_all add: responseComplete_def list_all_iff isDirectSubPathOf_is_child)

section \<open>Completion of a directory request\<close>

lemma runCallback_getDirectory_node:
  assumes "\<not> (getPath qnode = [] \<and> (rootElements st = None \<or> rootElements st = Some []))"
    and "P = (if getPath qnode = [] then hd (the (rootElements st)) else getPath qnode)"
  shows "runCallback (GetDirectoryCb pid qnode) None (Some node) st =
     (if responseComplete P (elements node)
      then resolve pid (Fragment node) (finishRequest (clearTimeout st))
      else st)"
proof (cases "getPath qnode = []")
  case True
  with assms(1) obtain y ys where "rootElements st = Some (y # ys)"
    by (cases "rootElements st"; cases "the (rootElements st)") auto
  with True assms(2) show ?thesis
    by (simp add: Let_def)
next
  case False
  with assms(2) show ?thesis
    by (simp add: Let_def)
qed

text \<open>
  C1 (as amended). For a directory request whose requested path is \<open>P\<close> (the path
  of the requested node, or the path of the Root's first element when the Root
  itself was requested), the inbound fragment is judged complete exactly when it has
  an element list and every top-level element's path equals \<open>P\<close> or is a direct
  child path of \<open>P\<close>, one dot-separated segment deeper; the handler then clears the
  timer, finishes the request and resolves, and otherwise leaves the state as it
  is. For \<open>P = ''1.2''\<close>: the element paths \<open>1.2, 1.2.1, 1.2.2\<close> are complete;
  with the grandchild \<open>1.2.1.1\<close> added they are not complete; \<open>1.2.1\<close> alone is
  complete; \<open>1.3\<close> is not complete.
\<close>

theorem getDirectory_complete_iff_self_or_child:
  "(responseComplete P nodeElements \<longleftrightarrow>
      (\<exists>els. nodeElements = Some els \<and>
         (\<forall>p \<in> set els. p = P \<or> isDirectChildPath P p)))
   \<and> (\<not> (getPath qnode = [] \<and> (rootElements st = None \<or> rootElements st = Some []))
        \<and> P = (if getPath qnode = [] then hd (the (rootElements st)) else getPath qnode)
      \<longrightarrow> runCallback (GetDirectoryCb pid qnode) None (Some node) st =
            (if responseComplete P (elements node)
             then resolve pid (Fragment node) (finishRequest (clearTimeout st))
             else st))
   \<and> responseComplete ''1.2'' (Some [''1.2'', ''1.2.1'', ''1.2.2''])
   \<and> \<not> responseComplete ''1.2'' (Some [''1.2'', ''1.2.1'', ''1.2.2'', ''1.2.1.1''])
   \<and> responseComplete ''1.2'' (Some [''1.2.1''])
   \<and> \<not> responseComplete ''1.2'' (Some [''1.3''])"
proof -
  have ex: "responseComplete ''1.2'' (Some [''1.2'', ''1.2.1'', ''1.2.2''])"
    "\<not> responseComplete ''1.2'' (Some [''1.2'', ''1.2.1'', ''1.2.2'', ''1.2.1.1''])"
    "responseComplete ''1.2'' (Some [''1.2.1''])"
    "\<not> responseComplete ''1.2'' (Some [''1.3''])"
    by (simp_all add: responseComplete_def isDirectSubPathOf_def startsWith_def)
  show ?thesis
    using responseComplete_iff[of P nodeElements]
      runCallback_getDirectory_node[of qnode st P pid node] ex
    by blast
qed

text \<open>
  Witness for C1: the request for \<open>1.2\<close> is active; elements \<open>1.2\<close> and
  \<open>1.2.2\<close> satisfy the rule and are complete, and the handler leaves the state as
  it is when the answer has the unrelated element \<open>1.3\<close>.
\<close>

theorem getDirectory_complete_witness:
  "responseComplete ''1.2'' (Some [''1.2'', ''1.2.2''])
   \<and> runCallback (GetDirectoryCb 0 node12) None
        (Some \<lparr>isInvocationResult = False, elements = Some [''1.3'']\<rparr>) awaiting12
      = awaiting12"
proof -
  let ?node = "\<lparr>isInvocationResult = False, elements = Some [''1.3'']\<rparr>"
  have h1: "\<forall>p \<in> set [''1.2'', ''1.2.2'']. p = ''1.2'' \<or> isDirectChildPath ''1.2'' p"
    by (simp add: isDirectChildPath_def)
  have c1: "responseComplete ''1.2'' (Some [''1.2'', ''1.2.2''])"
    using getDirectory_complete_iff_self_or_child[of "''1.2''" "Some [''1.2'', ''1.2.2'']"] h1
    by blast
  have h2: "\<not> (getPath node12 = []
        \<and> (rootElements awaiting12 = None \<or> rootElements awaiting12 = Some []))
      \<and> ''1.2'' = (if getPath node12 = [] then hd (the (rootElements awaiting12))
                   else getPath node12)"
    by (simp add: node12_def)
  have n3: "\<not> responseComplete ''1.2'' (elements ?node)"
    by (simp add: responseComplete_def isDirectSubPathOf_def startsWith_def)
  have c2: "runCallback (GetDirectoryCb 0 node12) None (Some ?node) awaiting12 = awaiting12"
    using getDirectory_complete_iff_self_or_child
      [of "''1.2''" None node12 awaiting12 0 ?node] h2 n3
    by presburger
  from c1 c2 show ?thesis by blast
qed

text \<open>
  Counterexample to C1 as stated: with the grandchild path \<open>1.2.1.1\<close> among its
  elements the answer to the request for \<open>1.2\<close> is judged incomplete; after it
  the device is in the state it was in before: nothing is settled, the request is
  still active and its timer still stored.
\<close>

theorem getDirectory_grandchild_incomplete:
  "\<not> responseComplete ''1.2'' (Some [''1.2'', ''1.2.1'', ''1.2.2'', ''1.2.1.1''])
   \<and> run [GetDirectory (Some node12),
        EmberTree \<lparr>isInvocationResult = False,
           elements = Some [''1.2'', ''1.2.1'', ''1.2.2'', ''1.2.1.1'']\<rparr> None]
     = awaiting12
   \<and> settled awaiting12 = []
   \<and> activeRequest awaiting12 = Some (GetDirectoryReq 0 node12)
   \<and> timeout awaiting12 = Some 0"
  by (simp add: pipeline_defs awaiting12_def node12_def responseComplete_def
      isDirectSubPathOf_def startsWith_def)

text \<open>
  C8 (as amended). A getDirectory response carrying no informative content, that
  is, a delivery with a null node, or a fragment that has no element list
  (\<open>elements\<close> is \<open>null\<close> or \<open>undefined\<close>), is ignored by the completion handler:
  the state is left as it is, so the promise is neither resolved nor rejected and
  the active request and its timer stay. A fragment whose element list is present
  but empty is not ignored: for a requested node other than the Root it is judged
  complete, and the handler clears the timer, finishes the request and resolves.
\<close>

theorem getDirectory_ignores_null_and_missing_elements:
  "runCallback (GetDirectoryCb pid qnode) error None st = st
   \<and> (callback st = Some (GetDirectoryCb pid qnode) \<and> elements node = None
        \<longrightarrow> runCallback (GetDirectoryCb pid qnode) None (Some node) st = st)
   \<and> (getPath qnode \<noteq> [] \<and> elements node = Some []
        \<longrightarrow> runCallback (GetDirectoryCb pid qnode) None (Some node) st =
             resolve pid (Fragment node) (finishRequest (clearTimeout st)))"
proof -
  have a: "runCallback (GetDirectoryCb pid qnode) error None st = st"
    by simp
  have b: "runCallback (GetDirectoryCb pid qnode) None (Some node) st = st"
    if "callback st = Some (GetDirectoryCb pid qnode)" "elements node = None"
    using that by (simp add: responseComplete_def Let_def)
  have c: "runCallback (GetDirectoryCb pid qnode) None (Some node) st =
             resolve pid (Fragment node) (finishRequest (clearTimeout st))"
    if "getPath qnode \<noteq> []" "elements node = Some []"
    using that by (simp add: responseComplete_def Let_def)
  from a b c show ?thesis by blast
qed

text \<open>
  Witness for C8: while the request for \<open>1.2\<close> is active, a fragment without an
  element list changes nothing, and a fragment with an empty element list resolves
  the promise.
\<close>

theorem getDirectory_ignores_witness:
  "runCallback (GetDirectoryCb 0 node12) None
      (Some \<lparr>isInvocationResult = False, elements = None\<rparr>) awaiting12 = awaiting12
   \<and> settled (runCallback (GetDirectoryCb 0 node12) None
      (Some \<lparr>isInvocationResult = False, elements = Some []\<rparr>) awaiting12)
     = [(0, Resolved (Fragment \<lparr>isInvocationResult = False, elements = Some []\<rparr>))]"
proof -
  let ?none = "\<lparr>isInvocationResult = False, elements = None\<rparr>"
  let ?empty = "\<lparr>isInvocationResult = False, elements = Some []\<rparr>"
  have h1: "callback awaiting12 = Some (GetDirectoryCb 0 node12) \<and> elements ?none = None"
    by (simp add: awaiting12_def)
  have h2: "getPath node12 \<noteq> [] \<and> elements ?empty = Some []"
    by (simp add: node12_def)
  have 1: "runCallback (GetDirectoryCb 0 node12) None (Some ?none) awaiting12 = awaiting12"
    using getDirectory_ignores_null_and_missing_elements
      [of 0 node12 None awaiting12 ?none] h1 by blast
  have 2: "runCallback (GetDirectoryCb 0 node12) None (Some ?empty) awaiting12 =
      resolve 0 (Fragment ?empty) (finishRequest (clearTimeout awaiting12))"
    using getDirectory_ignores_null_and_missing_elements
      [of 0 node12 None awaiting12 ?empty] h2 by blast
  have 3: "settled (resolve 0 (Fragment ?empty) (finishRequest (clearTimeout awaiting12)))
      = [(0, Resolved (Fragment ?empty))]"
    by (simp add: pipeline_defs awaiting12_def)
  from 1 2 3 show ?thesis by simp
qed

text \<open>
  Counterexample to C8 as stated: the answer to the request for \<open>1.2\<close> is a
  fragment whose element list is empty. The handler resolves the promise, and the
  active request and the timer are gone.
\<close>

theorem getDirectory_empty_elements_resolves:
  "settled (run [GetDirectory (Some node12),
        EmberTree \<lparr>isInvocationResult = False, elements = Some []\<rparr> None])
     = [(0, Resolved (Fragment \<lparr>isInvocationResult = False, elements = Some []\<rparr>))]
   \<and> activeRequest (run [GetDirectory (Some node12),
        EmberTree \<lparr>isInvocationResult = False, elements = Some []\<rparr> None]) = None
   \<and> timeout (run [GetDirectory (Some node12),
        EmberTree \<lparr>isInvocationResult = False, elements = Some []\<rparr> None]) = None
   \<and> cleared (run [GetDirectory (Some node12),
        EmberTree \<lparr>isInvocationResult = False, elements = Some []\<rparr> None]) = [0]"
  by (simp add: pipeline_defs node12_def responseComplete_def)

section \<open>Setting a value\<close>

text \<open>
  C5. For every call \<open>setValue(node, value)\<close> where the node is neither a
  Parameter nor a QualifiedParameter, the returned promise is rejected with an
  EmberAccessError at once, and nothing else happens: no request is pushed on the
  queue, none becomes active, and the client is not called, so nothing is sent.
\<close>

theorem setValue_non_parameter_rejects:
  assumes "kind node \<noteq> Parameter" and "kind node \<noteq> QualifiedParameter"
  shows "setValue node v st =
           (nextPromise st,
            st\<lparr>nextPromise := Suc (nextPromise st),
               settled := settled st @
                 [(nextPromise st, Rejected (EmberAccessError ''not a property''))]\<rparr>)
         \<and> clientLog (snd (setValue node v st)) = clientLog st
         \<and> enqueued (snd (setValue node v st)) = enqueued st
         \<and> pendingRequests (snd (setValue node v st)) = pendingRequests st
         \<and> activeRequest (snd (setValue node v st)) = activeRequest st"
  using assms by (simp add: setValue_def newPromise_def reject_def)

text \<open>
  Witness for C5: \<open>setValue\<close> on the container node \<open>1.2\<close> of a fresh device.
\<close>

theorem setValue_non_parameter_witness:
  "setValue node12 ''5'' initial =
     (0, initial\<lparr>nextPromise := 1,
           settled := [(0, Rejected (EmberAccessError ''not a property''))]\<rparr>)
   \<and> clientLog (snd (setValue node12 ''5'' initial)) = []
   \<and> pendingRequests (snd (setValue node12 ''5'' initial)) = []"
proof -
  have k: "kind node12 \<noteq> Parameter" "kind node12 \<noteq> QualifiedParameter"
    by (simp_all add: node12_def)
  from setValue_non_parameter_rejects[OF k, of "''5''" initial]
  show ?thesis by (simp add: initial_def)
qed

section \<open>Subscriptions\<close>

text \<open>
  C4. The claim is that \<open>unsubscribe(node, callback)\<close> removes a registered
  value-change callback from a node that is not a stream, so that after
  \<open>subscribe\<close> and \<open>unsubscribe\<close> with the same callback the node carries no
  registration of it. The code of \<open>unsubscribe\<close> (line 411) calls \<open>addCallback\<close>,
  as \<open>subscribe\<close> does: on the container node \<open>1.2\<close> without subscribers,
  subscribing callback 7 and unsubscribing it leaves the callback registered twice.
\<close>

theorem unsubscribe_registers_again:
  "subscribers (unsubscribe (subscribe node12 7) 7) = [7, 7]"
  by (simp add: unsubscribe_def subscribe_def addCallback_def node12_def)

section \<open>Connecting\<close>

text \<open>
  C10. When \<open>connect(timeout)\<close> is called while the client is connected, the client
  is first told to disconnect and then to connect; otherwise it is only told to
  connect. The callback slot holds the closure of the returned promise. The
  \<open>connected\<close> event resolves the promise, an \<open>error\<close> event that delivers \<open>e\<close>
  rejects it with \<open>e\<close>, and either clears the slot, so that a further
  \<open>connected\<close> or \<open>error\<close> event settles nothing.
\<close>

theorem connect_disconnects_first_and_settles_once:
  "clientLog (snd (connect tmo True st)) =
     clientLog st @ [ClientDisconnect, ClientConnect (case tmo of None \<Rightarrow> 2 | Some t \<Rightarrow> t)]
   \<and> clientLog (snd (connect tmo False st)) =
     clientLog st @ [ClientConnect (case tmo of None \<Rightarrow> 2 | Some t \<Rightarrow> t)]
   \<and> fst (connect tmo c st) = nextPromise st
   \<and> callback (snd (connect tmo c st)) = Some (ConnectCb (nextPromise st))
   \<and> settled (onConnected (snd (connect tmo c st))) =
       settled st @ [(nextPromise st, Resolved Undefined)]
   \<and> callback (onConnected (snd (connect tmo c st))) = None
   \<and> settled (onError (Some e) (snd (connect tmo c st))) =
       settled st @ [(nextPromise st, Rejected e)]
   \<and> callback (onError (Some e) (snd (connect tmo c st))) = None
   \<and> settled (onConnected (onConnected (snd (connect tmo c st)))) =
       settled (onConnected (snd (connect tmo c st)))
   \<and> settled (onError e' (onConnected (snd (connect tmo c st)))) =
       settled (onConnected (snd (connect tmo c st)))
   \<and> settled (onConnected (onError (Some e) (snd (connect tmo c st)))) =
       settled (onError (Some e) (snd (connect tmo c st)))
   \<and> settled (onError e' (onError (Some e) (snd (connect tmo c st)))) =
       settled (onError (Some e) (snd (connect tmo c st)))"
  by (simp add: connect_def newPromise_def clientCall_def onConnected_def onError_def
      emit_def resolve_def reject_def Let_def)

text \<open>
  Witness for C10: a fresh device whose client reports a connection is connected
  again with the default timeout, and the \<open>connected\<close> event arrives twice.
\<close>

theorem connect_witness:
  "clientLog (run [Connect None True]) = [ClientDisconnect, ClientConnect 2]
   \<and> settled (run [Connect None True, ClientConnected]) = [(0, Resolved Undefined)]
   \<and> settled (run [Connect None True, ClientConnected, ClientConnected])
     = [(0, Resolved Undefined)]
   \<and> settled (run [Connect None True, ClientError (Some (TransportError ''refused''))])
     = [(0, Rejected (TransportError ''refused''))]"
  using connect_disconnects_first_and_settles_once
    [of None initial True "TransportError ''refused''" None]
  by (simp add: run_def initial_def)

section \<open>The pipeline keeps its invariants\<close>

lemmas inv_defs = consistent_def timersOk_def clearedOk_def queueOk_def

lemma consistent_frame [simp]:
  "consistent (st\<lparr>callback := c\<rparr>) = consistent st"
  "consistent (st\<lparr>settled := s\<rparr>) = consistent st"
  "consistent (st\<lparr>clientLog := l\<rparr>) = consistent st"
  "consistent (st\<lparr>treeLog := t\<rparr>) = consistent st"
  "consistent (st\<lparr>emits := e\<rparr>) = consistent st"
  "consistent (st\<lparr>faults := f\<rparr>) = consistent st"
  "consistent (st\<lparr>rootElements := re\<rparr>) = consistent st"
  "consistent (st\<lparr>nodeByPathCallback := n\<rparr>) = consistent st"
  by (simp_all add: inv_defs)

lemma settledState_frame [simp]:
  "settledState (st\<lparr>callback := c\<rparr>) = settledState st"
  "settledState (st\<lparr>settled := s\<rparr>) = settledState st"
  "settledState (st\<lparr>clientLog := l\<rparr>) = settledState st"
  "settledState (st\<lparr>treeLog := t\<rparr>) = settledState st"
  "settledState (st\<lparr>emits := e\<rparr>) = settledState st"
  "settledState (st\<lparr>faults := f\<rparr>) = settledState st"
  "settledState (st\<lparr>rootElements := re\<rparr>) = settledState st"
  "settledState (st\<lparr>nodeByPathCallback := n\<rparr>) = settledState st"
  by (simp_all add: settledState_def)

lemma frame_ops [simp]:
  "consistent (reject pid e st) = consistent st"
  "consistent (resolve pid v st) = consistent st"
  "consistent (sendBERNode m st) = consistent st"
  "consistent (clientCall c st) = consistent st"
  "consistent (emit ev st) = consistent st"
  "consistent (fault msg st) = consistent st"
  "settledState (reject pid e st) = settledState st"
  "settledState (resolve pid v st) = settledState st"
  "settledState (sendBERNode m st) = settledState st"
  "settledState (clientCall c st) = settledState st"
  "settledState (emit ev st) = settledState st"
  "settledState (fault msg st) = settledState st"
  by (simp_all add: reject_def resolve_def sendBERNode_def clientCall_def emit_def fault_def)

lemma work_None_settled:
  "settledState (work r None st) = settledState st"
  by (cases r) simp_all

lemma removeAll_only: "set xs \<subseteq> {a} \<Longrightarrow> removeAll a xs = []"
  by (induction xs) auto

lemma settledState_consistent: "settledState st \<Longrightarrow> consistent st"
  by (simp add: settledState_def)

lemma consistent_clearTimeout: "consistent st \<Longrightarrow> consistent (clearTimeout st)"
  apply (cases "timeout st")
   apply (simp add: clearTimeout_def)
  apply (auto simp: clearTimeout_def inv_defs removeAll_only)
  done

lemma timeout_clearTimeout [simp]: "timeout (clearTimeout st) = None"
  by (cases "timeout st") (simp_all add: clearTimeout_def)

lemma timers_clearTimeout: "consistent st \<Longrightarrow> timers (clearTimeout st) = []"
  by (cases "timeout st") (auto simp: clearTimeout_def inv_defs removeAll_only)

lemma makeRequest_settled:
  assumes "consistent st"
    and "activeRequest st = None \<longrightarrow> timeout st = None \<and> timers st = []"
    and "activeRequest st \<noteq> None \<longrightarrow> timeout st \<noteq> None"
    and "\<forall>h. timeout st = Some h \<longrightarrow> h \<in> set (timers st)"
  shows "settledState (makeRequest st)"
proof (cases "activeRequest st = None \<and> pendingRequests st \<noteq> []")
  case False
  with assms show ?thesis by (auto simp: settledState_def makeRequest.simps)
next
  case True
  then obtain r rs where p: "pendingRequests st = r # rs" by (cases "pendingRequests st") auto
  let ?st3 = "st\<lparr>activeRequest := Some r, pendingRequests := rs,
      requestID := requestID st + 1, started := started st @ [(requestID st, r)],
      timers := timers st @ [requestID st], timeout := Some (requestID st)\<rparr>"
  have eq: "makeRequest st = work r None ?st3"
    using True p by (simp add: Let_def setTimeout_def makeRequest.simps)
  have "settledState ?st3"
    using assms True p
    by (auto simp: settledState_def inv_defs less_Suc_eq)
  then show ?thesis by (simp add: eq work_None_settled)
qed


lemma finishRequest_settled:
  assumes "consistent st"
  shows "settledState (finishRequest st)"
proof -
  let ?st1 = "(clearTimeout (st\<lparr>callback := None\<rparr>))\<lparr>activeRequest := None\<rparr>"
  have c: "consistent (clearTimeout (st\<lparr>callback := None\<rparr>))"
    using assms by (simp add: consistent_clearTimeout)
  have t: "timers (clearTimeout (st\<lparr>callback := None\<rparr>)) = []"
    using assms by (simp add: timers_clearTimeout)
  have "consistent ?st1"
    using c by (auto simp: inv_defs)
  then have "settledState (makeRequest ?st1)"
    using t by (intro makeRequest_settled) simp_all
  then show ?thesis by (simp add: finishRequest.simps)
qed

lemma work_Some_settled:
  "consistent st \<Longrightarrow> settledState (work r (Some e) st)"
  by (cases r) (simp_all add: finishRequest_settled)

lemma runCallback_settled:
  "settledState st \<Longrightarrow> settledState (runCallback h error node st)"
proof (induction h error node st rule: runCallback.induct)
  case (1 pid e node st)
  then show ?case by (simp add: Let_def split: option.splits)
next
  case (2 pid qnode error st)
  then show ?case by simp
next
  case (3 pid qnode e node st)
  then show ?case
    by (simp add: finishRequest_settled consistent_clearTimeout settledState_consistent)
next
  case (4 pid qnode node st)
  then show ?case
    by (auto simp: Let_def finishRequest_settled consistent_clearTimeout
        settledState_consistent split: option.splits)
next
  case (5 pid error result st)
  then show ?case
    by (simp add: Let_def finishRequest_settled consistent_clearTimeout
        settledState_consistent split: option.splits)
next
  case (6 pid error node st)
  then show ?case
    by (simp add: Let_def finishRequest_settled settledState_consistent split: option.splits)
qed

lemma addRequest_settled:
  assumes "settledState st" and "\<forall>r \<in> set (enqueued st). promiseOf r \<noteq> promiseOf cb"
    and "promiseOf cb < nextPromise st"
  shows "settledState (addRequest cb st)"
proof -
  let ?st1 = "st\<lparr>pendingRequests := pendingRequests st @ [cb], enqueued := enqueued st @ [cb]\<rparr>"
  have "consistent ?st1"
    using assms by (auto simp: settledState_def inv_defs)
  moreover have "activeRequest ?st1 = None \<longrightarrow> timeout ?st1 = None \<and> timers ?st1 = []"
    using assms(1) by (cases "timeout st") (auto simp: settledState_def inv_defs)
  ultimately have "settledState (makeRequest ?st1)"
    using assms(1) by (intro makeRequest_settled) (auto simp: settledState_def)
  then show ?thesis by (simp add: addRequest_def)
qed

lemma settledState_newPromise:
  "settledState st \<Longrightarrow> settledState (st\<lparr>nextPromise := Suc (nextPromise st)\<rparr>)"
  by (auto simp: settledState_def inv_defs less_Suc_eq)

lemma fresh_request:
  "settledState st \<Longrightarrow> promiseOf cb = nextPromise st \<Longrightarrow>
     settledState (addRequest cb (st\<lparr>nextPromise := Suc (nextPromise st)\<rparr>))"
  by (rule addRequest_settled) (auto simp: settledState_newPromise settledState_def inv_defs)

lemma step_settled: "settledState st \<Longrightarrow> settledState (step st ev)"
proof (cases ev)
  case (Connect tmo c)
  assume "settledState st"
  then show ?thesis using Connect
    by (simp add: connect_def newPromise_def Let_def settledState_newPromise)
next
  case Disconnect
  assume "settledState st"
  then show ?thesis using Disconnect by (simp add: disconnect_def)
next
  case (GetDirectory qnode)
  assume "settledState st"
  then show ?thesis
    using GetDirectory
      fresh_request[of "rootClear st" "GetDirectoryReq (nextPromise st) rootNode"]
    by (cases qnode) (simp_all add: getDirectory_def newPromise_def rootClear_def fresh_request)
next
  case (InvokeFunction fnNode params)
  assume "settledState st"
  then show ?thesis using InvokeFunction
    by (simp add: invokeFunction_def newPromise_def fresh_request)
next
  case (SetValue node v)
  assume "settledState st"
  then show ?thesis using SetValue
    by (simp add: setValue_def newPromise_def fresh_request settledState_newPromise)
next
  case (GetNodeByPathCall path)
  assume "settledState st"
  then show ?thesis using GetNodeByPathCall
    by (simp add: getNodeByPath_def newPromise_def fresh_request)
next
  case ClientConnecting
  assume "settledState st"
  then show ?thesis using ClientConnecting by (simp add: onConnecting_def)
next
  case ClientConnected
  assume "settledState st"
  then show ?thesis using ClientConnected
    by (simp add: onConnected_def Let_def runCallback_settled split: option.splits)
next
  case ClientDisconnected
  assume "settledState st"
  then show ?thesis using ClientDisconnected by (simp add: onDisconnected_def)
next
  case (ClientError e)
  assume "settledState st"
  then show ?thesis using ClientError
    by (simp add: onError_def Let_def runCallback_settled split: option.splits)
next
  case (EmberTree root merged)
  assume "settledState st"
  then show ?thesis using EmberTree
    by (simp add: onEmberTree_def Let_def runCallback_settled split: option.splits)
next
  case (TimerFires i)
  assume s: "settledState st"
  show ?thesis
  proof (cases "i \<in> set (timers st)")
    case False
    with s TimerFires show ?thesis by (simp add: onTimer_def)
  next
    case True
    let ?st1 = "st\<lparr>timers := removeAll i (timers st), fired := fired st @ [i]\<rparr>"
    have c: "consistent ?st1"
      using s True by (auto simp: settledState_def inv_defs removeAll_only distinct_removeAll)
    have a: "activeRequest ?st1 \<noteq> None"
      using s True by (auto simp: settledState_def inv_defs)
    then obtain r where r: "activeRequest st = Some r" by auto
    show ?thesis
      using TimerFires True c r
      by (simp add: onTimer_def timeoutRequest_def cancelCallbacks_def Let_def work_Some_settled)
  qed
next
  case (NodeByPathDone error node)
  assume "settledState st"
  then show ?thesis using NodeByPathDone
    by (simp add: nodeByPathDone_def Let_def finishRequest_settled settledState_consistent
        split: option.splits)
qed

lemma settledState_initial: "settledState initial"
  by (simp add: settledState_def inv_defs initial_def)

lemma settledState_foldl: "settledState st \<Longrightarrow> settledState (foldl step st evs)"
  by (induction evs arbitrary: st) (simp_all add: step_settled)

lemma settledState_run: "settledState (run evs)"
  by (simp add: run_def settledState_foldl settledState_initial)

lemma count_list_distinct:
  "distinct xs \<Longrightarrow> count_list xs x = (if x \<in> set xs then 1 else 0)"
  by (induction xs) auto

lemma cleared_work_None [simp]: "cleared (work r None st) = cleared st"
  by (cases r) (simp_all add: sendBERNode_def clientCall_def)

lemma fired_work_None [simp]: "fired (work r None st) = fired st"
  by (cases r) (simp_all add: sendBERNode_def clientCall_def)

lemma cleared_makeRequest [simp]: "cleared (makeRequest st) = cleared st"
  by (simp add: makeRequest.simps Let_def setTimeout_def)

lemma fired_makeRequest [simp]: "fired (makeRequest st) = fired st"
  by (simp add: makeRequest.simps Let_def setTimeout_def)

lemma cleared_finishRequest:
  "timeout st = Some i \<Longrightarrow> cleared (finishRequest st) = cleared st @ [i]"
  by (simp add: finishRequest.simps clearTimeout_def)

lemma fired_finishRequest [simp]: "fired (finishRequest st) = fired st"
  by (cases "timeout st") (simp_all add: finishRequest.simps clearTimeout_def)

lemma cleared_work_Some:
  "timeout st = Some i \<Longrightarrow> cleared (work r (Some e) st) = cleared st @ [i]"
  by (cases r) (simp_all add: cleared_finishRequest reject_def)

lemma fired_work_Some [simp]: "fired (work r (Some e) st) = fired st"
  by (cases r) (simp_all add: reject_def)

lemma onTimer_clears:
  assumes "settledState st" and "timeout st = Some i"
  shows "cleared (onTimer i st) = cleared st @ [i] \<and> fired (onTimer i st) = fired st @ [i]"
proof -
  from assms have m: "i \<in> set (timers st)" by (simp add: settledState_def)
  from assms obtain r where r: "activeRequest st = Some r"
    by (auto simp: settledState_def inv_defs)
  show ?thesis
    using m r assms(2)
    by (simp add: onTimer_def timeoutRequest_def cancelCallbacks_def Let_def cleared_work_Some)
qed

lemma active_not_pending:
  assumes "settledState st" and "activeRequest st = Some r"
  shows "r \<notin> set (pendingRequests st)"
proof
  assume p: "r \<in> set (pendingRequests st)"
  from assms have q: "queueOk st" by (simp add: settledState_def consistent_def)
  from q assms(2) have "started st \<noteq> []" "snd (last (started st)) = r"
    by (auto simp: queueOk_def)
  then have s: "r \<in> set (map snd (started st))"
    by (metis last_in_set last_map list.map_disc_iff)
  from q have "distinct (map promiseOf (map snd (started st) @ pendingRequests st))"
    by (simp add: queueOk_def)
  then have "distinct (map snd (started st) @ pendingRequests st)"
    by (simp only: distinct_map)
  with s p show False by auto
qed


section \<open>One active request, first in first out\<close>

text \<open>
  C2. The pipeline keeps at most one active request. \<open>makeRequest\<close> does nothing
  while a request is active; when none is active and the queue is not empty it
  removes the head of the queue, makes it active, gives it the id \<open>requestID\<close>
  (which is then incremented), starts its timer and invokes it. In every state that
  the device can reach, the active request is not in the queue and is the request
  started last; an idle pipeline has an empty queue; the requests started so far,
  followed by the queue, are the requests pushed so far in the order of the pushes,
  and their ids are \<open>0, 1, 2, ...\<close> in that order. Requests enter the queue through
  \<open>getDirectory\<close>, \<open>invokeFunction\<close>, \<open>setValue\<close> and \<open>getNodeByPath\<close>, each
  of which builds a new closure.
\<close>

theorem one_active_request_fifo:
  "(activeRequest st \<noteq> None \<longrightarrow> makeRequest st = st)
   \<and> (activeRequest st = None \<and> pendingRequests st = r # rs \<longrightarrow>
        makeRequest st =
          work r None
            (st\<lparr>activeRequest := Some r, pendingRequests := rs,
                requestID := requestID st + 1,
                started := started st @ [(requestID st, r)],
                timers := timers st @ [requestID st],
                timeout := Some (requestID st)\<rparr>))
   \<and> (\<forall>a. activeRequest (run evs) = Some a \<longrightarrow>
          a \<notin> set (pendingRequests (run evs)) \<and> started (run evs) \<noteq> [] \<and>
          snd (last (started (run evs))) = a)
   \<and> (activeRequest (run evs) = None \<longrightarrow> pendingRequests (run evs) = [])
   \<and> map snd (started (run evs)) @ pendingRequests (run evs) = enqueued (run evs)
   \<and> map fst (started (run evs)) = [0..<requestID (run evs)]"
proof -
  have s: "settledState (run evs)" by (rule settledState_run)
  then have q: "queueOk (run evs)" by (simp add: settledState_def consistent_def)
  have 1: "activeRequest st \<noteq> None \<longrightarrow> makeRequest st = st"
    by (simp add: makeRequest.simps)
  have 2: "activeRequest st = None \<and> pendingRequests st = r # rs \<longrightarrow>
        makeRequest st =
          work r None
            (st\<lparr>activeRequest := Some r, pendingRequests := rs,
                requestID := requestID st + 1,
                started := started st @ [(requestID st, r)],
                timers := timers st @ [requestID st],
                timeout := Some (requestID st)\<rparr>)"
    by (simp add: makeRequest.simps Let_def setTimeout_def)
  have 3: "\<forall>a. activeRequest (run evs) = Some a \<longrightarrow>
          a \<notin> set (pendingRequests (run evs)) \<and> started (run evs) \<noteq> [] \<and>
          snd (last (started (run evs))) = a"
    using active_not_pending[OF s] q by (auto simp: queueOk_def)
  have 4: "activeRequest (run evs) = None \<longrightarrow> pendingRequests (run evs) = []"
    using s by (simp add: settledState_def)
  from 1 2 3 4 q show ?thesis unfolding queueOk_def by blast
qed


text \<open>
  Witness for C2: a directory request and then a \<open>setValue\<close> are issued; the first
  is active and the second waits; when the first times out the second is started;
  an idle pipeline that is given one pending request starts it.
\<close>

theorem one_active_request_witness:
  "activeRequest (run [GetDirectory (Some node12), SetValue param121 ''5''])
     = Some (GetDirectoryReq 0 node12)
   \<and> pendingRequests (run [GetDirectory (Some node12), SetValue param121 ''5''])
     = [SetValueReq 1 param121 ''5'']
   \<and> GetDirectoryReq 0 node12
       \<notin> set (pendingRequests (run [GetDirectory (Some node12), SetValue param121 ''5'']))
   \<and> makeRequest (run [GetDirectory (Some node12), SetValue param121 ''5''])
     = run [GetDirectory (Some node12), SetValue param121 ''5'']
   \<and> started (run [GetDirectory (Some node12), SetValue param121 ''5'', TimerFires 0])
     = [(0, GetDirectoryReq 0 node12), (1, SetValueReq 1 param121 ''5'')]
   \<and> activeRequest (run []) = None \<and> pendingRequests (run []) = []
   \<and> makeRequest (initial\<lparr>nextPromise := 1, pendingRequests := [GetDirectoryReq 0 node12],
         enqueued := [GetDirectoryReq 0 node12]\<rparr>) = awaiting12"
proof -
  let ?evs = "[GetDirectory (Some node12), SetValue param121 ''5'']"
  let ?idle = "initial\<lparr>nextPromise := 1, pendingRequests := [GetDirectoryReq 0 node12],
         enqueued := [GetDirectoryReq 0 node12]\<rparr>"
  have a: "activeRequest (run ?evs) = Some (GetDirectoryReq 0 node12)"
    and p: "pendingRequests (run ?evs) = [SetValueReq 1 param121 ''5'']"
    by (simp_all add: pipeline_defs param121_def)
  have n: "activeRequest (run ?evs) \<noteq> None" using a by simp
  have 1: "GetDirectoryReq 0 node12 \<notin> set (pendingRequests (run ?evs))"
    using one_active_request_fifo[of "run ?evs" "GetDirectoryReq 0 node12" "[]" ?evs] a by blast
  have 2: "makeRequest (run ?evs) = run ?evs"
    using one_active_request_fifo[of "run ?evs" "GetDirectoryReq 0 node12" "[]" ?evs] n by blast
  have 3: "started (run (?evs @ [TimerFires 0]))
     = [(0, GetDirectoryReq 0 node12), (1, SetValueReq 1 param121 ''5'')]"
    by (simp add: pipeline_defs param121_def)
  have i: "activeRequest (run []) = None" by (simp add: run_def initial_def)
  have 4: "pendingRequests (run []) = []"
    using one_active_request_fifo[of initial "GetDirectoryReq 0 node12" "[]" "[]"] i by blast
  have h: "activeRequest ?idle = None \<and> pendingRequests ?idle = [GetDirectoryReq 0 node12]"
    by (simp add: initial_def)
  have 5: "makeRequest ?idle = awaiting12"
    using one_active_request_fifo[of ?idle "GetDirectoryReq 0 node12" "[]" "[]"] h
    by (simp add: initial_def awaiting12_def sendBERNode_def clientCall_def)
  from a p 1 2 3 i 4 5 show ?thesis by simp
qed

section \<open>One clearing of the timer per request\<close>

lemma cleared_clearTimeout:
  "cleared (clearTimeout st) = cleared st @ (case timeout st of None \<Rightarrow> [] | Some h \<Rightarrow> [h])"
  by (cases "timeout st") (simp_all add: clearTimeout_def)

lemma cleared_finishRequest_any:
  "cleared (finishRequest st) = cleared st @ (case timeout st of None \<Rightarrow> [] | Some h \<Rightarrow> [h])"
  by (cases "timeout st") (simp_all add: finishRequest.simps clearTimeout_def)

lemma cleared_work_Some_any:
  "cleared (work r (Some e) st) = cleared st @ (case timeout st of None \<Rightarrow> [] | Some h \<Rightarrow> [h])"
  by (cases r) (simp_all add: cleared_finishRequest_any reject_def)

lemma cleared_runCallback:
  "cleared (runCallback h error node st) = cleared st
   \<or> cleared (runCallback h error node st) =
        cleared st @ (case timeout st of None \<Rightarrow> [] | Some i \<Rightarrow> [i])"
proof (induction h error node st rule: runCallback.induct)
  case (1 pid e node st)
  then show ?case by (simp add: Let_def resolve_def reject_def split: option.splits)
next
  case (2 pid qnode error st)
  then show ?case by simp
next
  case (3 pid qnode e node st)
  then show ?case
    by (simp add: reject_def cleared_finishRequest_any cleared_clearTimeout)
next
  case (4 pid qnode node st)
  then show ?case
    by (auto simp: Let_def resolve_def fault_def cleared_finishRequest_any cleared_clearTimeout
        split: option.splits)
next
  case (5 pid error result st)
  then show ?case
    by (simp add: Let_def resolve_def reject_def cleared_finishRequest_any cleared_clearTimeout
        split: option.splits)
next
  case (6 pid error node st)
  then show ?case
    by (simp add: Let_def resolve_def reject_def cleared_finishRequest_any split: option.splits)
qed

lemma cleared_addRequest [simp]: "cleared (addRequest cb st) = cleared st"
  by (simp add: addRequest_def)

lemma cleared_step:
  "cleared (step st ev) = cleared st
   \<or> cleared (step st ev) = cleared st @ (case timeout st of None \<Rightarrow> [] | Some i \<Rightarrow> [i])"
proof (cases ev)
  case (Connect tmo c)
  then show ?thesis by (simp add: connect_def newPromise_def clientCall_def Let_def)
next
  case Disconnect
  then show ?thesis by (simp add: disconnect_def clientCall_def)
next
  case (GetDirectory qnode)
  then show ?thesis
    by (cases qnode) (simp_all add: getDirectory_def newPromise_def rootClear_def)
next
  case (InvokeFunction fnNode params)
  then show ?thesis by (simp add: invokeFunction_def newPromise_def)
next
  case (SetValue node v)
  then show ?thesis by (simp add: setValue_def newPromise_def reject_def)
next
  case (GetNodeByPathCall path)
  then show ?thesis by (simp add: getNodeByPath_def newPromise_def Let_def)
next
  case ClientConnecting
  then show ?thesis by (simp add: onConnecting_def emit_def)
next
  case ClientConnected
  show ?thesis
  proof (cases "callback st")
    case None
    with ClientConnected show ?thesis by (simp add: onConnected_def Let_def emit_def)
  next
    case (Some h)
    with ClientConnected cleared_runCallback[of h None None "emit Connected st"]
    show ?thesis by (simp add: onConnected_def Let_def emit_def)
  qed
next
  case ClientDisconnected
  then show ?thesis by (simp add: onDisconnected_def emit_def)
next
  case (ClientError e)
  show ?thesis
  proof (cases "callback st")
    case None
    with ClientError show ?thesis by (simp add: onError_def Let_def emit_def)
  next
    case (Some h)
    with ClientError cleared_runCallback[of h e None st]
    show ?thesis by (simp add: onError_def Let_def emit_def)
  qed
next
  case (EmberTree root merged)
  show ?thesis
  proof (cases "callback st")
    case None
    with EmberTree show ?thesis by (simp add: onEmberTree_def Let_def emit_def)
  next
    case (Some h)
    with EmberTree
      cleared_runCallback[of h None "Some root" "emit (InvocationResultEvent root) st"]
      cleared_runCallback[of h None "Some root" "st\<lparr>rootElements := merged\<rparr>"]
    show ?thesis by (auto simp: onEmberTree_def Let_def emit_def)
  qed
next
  case (TimerFires i)
  then show ?thesis
    by (simp add: onTimer_def timeoutRequest_def cancelCallbacks_def fault_def Let_def
        cleared_work_Some_any split: option.splits)
next
  case (NodeByPathDone error node)
  then show ?thesis
    by (simp add: nodeByPathDone_def Let_def resolve_def reject_def cleared_finishRequest_any
        split: option.splits)
qed

text \<open>
  C9. Every request that was made active got its request id \<open>i\<close> as the handle of
  its timer. In every state that the device can reach, either the handle \<open>i\<close> is
  still stored, and then request \<open>i\<close> is the active request, its timer is armed, it
  has not fired and \<open>clearTimeout\<close> has not been applied to it, and the firing of
  the timer applies \<open>clearTimeout\<close> to it once; or the handle is no longer stored,
  and then \<open>clearTimeout\<close> was applied to the non-null handle \<open>i\<close> exactly once,
  the timer is not armed, and it fired at most once. One event applies
  \<open>clearTimeout\<close> to at most one handle, the stored one: a completion path that
  calls \<open>clearTimeout\<close> and then \<open>finishRequest\<close> clears once, because the second
  call finds the handle nulled.
\<close>

theorem timer_cleared_exactly_once:
  assumes "i < requestID (run evs)"
  shows "(timeout (run evs) = Some i \<longrightarrow>
            (\<exists>r. activeRequest (run evs) = Some r \<and> last (started (run evs)) = (i, r)) \<and>
            i \<in> set (timers (run evs)) \<and>
            count_list (cleared (run evs)) i = 0 \<and> count_list (fired (run evs)) i = 0 \<and>
            count_list (cleared (run (evs @ [TimerFires i]))) i = 1 \<and>
            count_list (fired (run (evs @ [TimerFires i]))) i = 1)
       \<and> (timeout (run evs) \<noteq> Some i \<longrightarrow>
            i \<notin> set (timers (run evs)) \<and>
            count_list (cleared (run evs)) i = 1 \<and> count_list (fired (run evs)) i \<le> 1)
       \<and> (cleared (run (evs @ [ev])) = cleared (run evs)
            \<or> cleared (run (evs @ [ev])) =
                 cleared (run evs) @ (case timeout (run evs) of None \<Rightarrow> [] | Some h \<Rightarrow> [h]))"
proof -
  let ?s = "run evs"
  have s: "settledState ?s" by (rule settledState_run)
  then have c: "clearedOk ?s" and t: "timersOk ?s" and q: "queueOk ?s"
    by (simp_all add: settledState_def consistent_def)
  have dc: "distinct (cleared ?s)" and df: "distinct (fired ?s)"
    using c by (simp_all add: clearedOk_def)
  have a: "timeout ?s = Some i \<longrightarrow>
            (\<exists>r. activeRequest ?s = Some r \<and> last (started ?s) = (i, r)) \<and>
            i \<in> set (timers ?s) \<and>
            count_list (cleared ?s) i = 0 \<and> count_list (fired ?s) i = 0 \<and>
            count_list (cleared (run (evs @ [TimerFires i]))) i = 1 \<and>
            count_list (fired (run (evs @ [TimerFires i]))) i = 1"
  proof
    assume h: "timeout ?s = Some i"
    have m: "i \<in> set (timers ?s)" using s h by (simp add: settledState_def)
    have n: "i \<notin> set (cleared ?s)" "i \<notin> set (fired ?s)"
      using c h m by (auto simp: clearedOk_def)
    from t h obtain r where r: "activeRequest ?s = Some r" and id: "Suc i = requestID ?s"
      by (auto simp: timersOk_def)
    from q r have ne: "started ?s \<noteq> []" and lr: "snd (last (started ?s)) = r"
      by (auto simp: queueOk_def)
    from q have "map fst (started ?s) = [0..<requestID ?s]" by (simp add: queueOk_def)
    then have "last (map fst (started ?s)) = i" using id[symmetric] by simp
    then have "fst (last (started ?s)) = i" using ne by (simp add: last_map)
    with lr have l: "last (started ?s) = (i, r)" by (cases "last (started ?s)") simp
    have e: "run (evs @ [TimerFires i]) = onTimer i ?s" by (simp add: run_def)
    from onTimer_clears[OF s h] n dc df r l m
    show "(\<exists>r. activeRequest ?s = Some r \<and> last (started ?s) = (i, r)) \<and>
            i \<in> set (timers ?s) \<and>
            count_list (cleared ?s) i = 0 \<and> count_list (fired ?s) i = 0 \<and>
            count_list (cleared (run (evs @ [TimerFires i]))) i = 1 \<and>
            count_list (fired (run (evs @ [TimerFires i]))) i = 1"
      by (simp add: e count_list_distinct)
  qed
  have b: "timeout ?s \<noteq> Some i \<longrightarrow>
            i \<notin> set (timers ?s) \<and>
            count_list (cleared ?s) i = 1 \<and> count_list (fired ?s) i \<le> 1"
    using assms c t dc df by (auto simp: count_list_distinct clearedOk_def timersOk_def)
  have d: "cleared (run (evs @ [ev])) = cleared ?s
            \<or> cleared (run (evs @ [ev])) =
                 cleared ?s @ (case timeout ?s of None \<Rightarrow> [] | Some h \<Rightarrow> [h])"
    using cleared_step[of ?s ev] by (simp add: run_def)
  from a b d show ?thesis by blast
qed

text \<open>
  Witness for C9: request 0 is cleared once when its timer fires, and once when its
  answer is complete, where the handler calls \<open>clearTimeout\<close> and
  \<open>finishRequest\<close>.
\<close>

theorem timer_cleared_witness:
  "count_list (cleared (run [GetDirectory (Some node12)])) 0 = 0
   \<and> count_list (cleared (run [GetDirectory (Some node12), TimerFires 0])) 0 = 1
   \<and> count_list (fired (run [GetDirectory (Some node12), TimerFires 0])) 0 = 1
   \<and> count_list (cleared (run [GetDirectory (Some node12),
        EmberTree \<lparr>isInvocationResult = False, elements = Some [''1.2'']\<rparr> None])) 0 = 1
   \<and> fired (run [GetDirectory (Some node12),
        EmberTree \<lparr>isInvocationResult = False, elements = Some [''1.2'']\<rparr> None]) = []"
proof -
  let ?done = "[GetDirectory (Some node12),
        EmberTree \<lparr>isInvocationResult = False, elements = Some [''1.2'']\<rparr> None]"
  have r: "0 < requestID (run [GetDirectory (Some node12)])"
    and t: "timeout (run [GetDirectory (Some node12)]) = Some 0"
    by (simp_all add: run_getDirectory_node12 awaiting12_def)
  have 1: "count_list (cleared (run [GetDirectory (Some node12)])) 0 = 0
     \<and> count_list (cleared (run ([GetDirectory (Some node12)] @ [TimerFires 0]))) 0 = 1
     \<and> count_list (fired (run ([GetDirectory (Some node12)] @ [TimerFires 0]))) 0 = 1"
    using timer_cleared_exactly_once[OF r] t by blast
  have r2: "0 < requestID (run ?done)" and t2: "timeout (run ?done) \<noteq> Some 0"
    and f2: "fired (run ?done) = []"
    by (simp_all add: pipeline_defs node12_def responseComplete_def)
  have 2: "count_list (cleared (run ?done)) 0 = 1"
    using timer_cleared_exactly_once[OF r2] t2 by blast
  from 1 2 f2 show ?thesis by simp
qed

section \<open>What the merge engine asks the tree\<close>

lemma calls_called [simp]: "calls (called c ms) = calls ms @ [c]"
  by (simp add: called_def)

lemma tree_called [simp]: "tree (called c ms) = tree ms"
  by (simp add: called_def)

lemma calls_emitValueChange [simp]: "calls (emitValueChange n ms) = calls ms"
  by (simp add: emitValueChange_def)

lemma tree_emitValueChange [simp]: "tree (emitValueChange n ms) = tree ms"
  by (simp add: emitValueChange_def)

lemma calls_lookupPath [simp]:
  "calls (snd (lookupPath m r p ms)) = calls ms @ [GetElementByPath r p]"
  by (simp add: lookupPath_def)

lemma calls_lookupNumber [simp]:
  "calls (snd (lookupNumber m r k ms)) = calls ms @ [GetElementByNumber r k]"
  by (simp add: lookupNumber_def)

lemma calls_doAddChild [simp]:
  "calls (snd (doAddChild m parent node ms)) = calls ms @ [AddChild parent node]"
  by (simp add: doAddChild_def split: prod.splits)

lemma calls_doUpdate [simp]:
  "calls (snd (doUpdate m element node ms)) = calls ms @ [Update element node]"
  by (simp add: doUpdate_def split: prod.splits)

lemma calls_resolveNumbered:
  "\<exists>x. calls (snd (snd (resolveNumbered m parent node ms))) =
         calls ms @ [GetElementByNumber parent (number node), x]"
  by (auto simp: resolveNumbered_def lookupNumber_def doAddChild_def doUpdate_def
      split: prod.splits option.splits)

lemma calls_resolveQualified:
  "\<exists>rest. calls (snd (snd (resolveQualified m root parent node p ms))) =
         calls ms @ GetElementByPath parent p # rest"
  by (auto simp: resolveQualified_def lookupPath_def doAddChild_def doUpdate_def Let_def
      split: prod.splits option.splits)

declare handleNode.simps [simp del] handleQualifiedNode.simps [simp del]

lemma handleNode_grows:
  "\<exists>rest. calls (snd (handleNode m parent node ms)) = calls ms @ rest"
  "\<exists>rest. calls (snd (handleNodeChildren m n cs ms)) = calls ms @ rest"
proof (induction m parent node ms and m n cs ms rule: handleNode_handleNodeChildren.induct)
  case (1 m parent node ms)
  obtain n callbacks ms1 where r: "resolveNumbered m parent node ms = (n, callbacks, ms1)"
    by (cases "resolveNumbered m parent node ms") auto
  from calls_resolveNumbered[of m parent node ms] r
  obtain x where c1: "calls ms1 = calls ms @ [GetElementByNumber parent (number node), x]"
    by auto
  show ?case
  proof (cases "getChildren node")
    case None
    with r c1 show ?thesis by (simp add: handleNode.simps)
  next
    case (Some children)
    from "1.IH"[OF r[symmetric] refl refl Some]
    obtain rest where "calls (snd (handleNodeChildren m n children ms1)) = calls ms1 @ rest"
      by auto
    with r c1 Some show ?thesis by (auto simp: handleNode.simps split: prod.splits)
  qed
next
  case (2 m n ms)
  then show ?case by simp
next
  case (3 m n c cs ms)
  obtain cbs1 ms1 where h: "handleNode m n c ms = (cbs1, ms1)"
    by (cases "handleNode m n c ms") auto
  from "3.IH"(1) h obtain r1 where r1: "calls ms1 = calls ms @ r1" by auto
  from "3.IH"(2)[OF h[symmetric] refl]
  obtain r2 where "calls (snd (handleNodeChildren m n cs ms1)) = calls ms1 @ r2" by auto
  with h r1 show ?case by (auto split: prod.splits)
qed

lemma handleNode_first:
  "\<exists>post. calls (snd (handleNode m parent node ms)) =
          calls ms @ GetElementByNumber parent (number node) # post"
proof -
  obtain n callbacks ms1 where r: "resolveNumbered m parent node ms = (n, callbacks, ms1)"
    by (cases "resolveNumbered m parent node ms") auto
  from calls_resolveNumbered[of m parent node ms] r
  obtain x where c1: "calls ms1 = calls ms @ [GetElementByNumber parent (number node), x]"
    by auto
  show ?thesis
  proof (cases "getChildren node")
    case None
    with r c1 show ?thesis by (simp add: handleNode.simps)
  next
    case (Some children)
    from handleNode_grows(2)[of m n children ms1]
    obtain rest where "calls (snd (handleNodeChildren m n children ms1)) = calls ms1 @ rest"
      by auto
    with r c1 Some show ?thesis by (auto simp: handleNode.simps split: prod.splits)
  qed
qed

lemma handleQualifiedNode_grows:
  "\<exists>rest. calls (snd (handleQualifiedNode m root parent p ch ms)) = calls ms @ rest"
  "\<exists>rest. calls (snd (handleQualifiedChildren m root element cs ms)) = calls ms @ rest"
proof (induction m root parent p ch ms and m root element cs ms
    rule: handleQualifiedNode_handleQualifiedChildren.induct)
  case (1 m root parent p ch ms)
  obtain el callbacks ms1
    where r: "resolveQualified m root parent (Qualified p ch) p ms = (el, callbacks, ms1)"
    by (cases "resolveQualified m root parent (Qualified p ch) p ms") auto
  from calls_resolveQualified[of m root parent "Qualified p ch" p ms] r
  obtain r0 where c1: "calls ms1 = calls ms @ GetElementByPath parent p # r0" by auto
  show ?case
  proof (cases el)
    case None
    with r c1 show ?thesis by (simp add: handleQualifiedNode.simps)
  next
    case (Some element)
    show ?thesis
    proof (cases ch)
      case None
      with r c1 Some show ?thesis by (simp add: handleQualifiedNode.simps)
    next
      case (Some children)
      from "1.IH"[OF r[symmetric] \<open>el = Some element\<close> refl Some]
      obtain rest where
        "calls (snd (handleQualifiedChildren m root element children ms1)) = calls ms1 @ rest"
        by auto
      with r c1 Some \<open>el = Some element\<close> show ?thesis
        by (auto simp: handleQualifiedNode.simps split: prod.splits)
    qed
  qed
next
  case (2 m root element ms)
  then show ?case by simp
next
  case (3 m root element c cs ms)
  let ?h = "case c of
               Qualified p ch \<Rightarrow> handleQualifiedNode m root element p ch ms
             | Numbered k ch \<Rightarrow> handleNode m element c ms"
  obtain cbs1 ms1 where h: "?h = (cbs1, ms1)" by (cases ?h) auto
  have "\<exists>r1. calls ms1 = calls ms @ r1"
  proof (cases c)
    case (Qualified p ch)
    with "3.IH"(1)[OF Qualified] h show ?thesis by auto
  next
    case (Numbered k ch)
    with handleNode_grows(1)[of m element c ms] h show ?thesis by auto
  qed
  then obtain r1 where r1: "calls ms1 = calls ms @ r1" by auto
  from "3.IH"(2)[OF h[symmetric] refl]
  obtain r2 where "calls (snd (handleQualifiedChildren m root element cs ms1)) = calls ms1 @ r2"
    by auto
  with h r1 show ?case by (auto split: prod.splits)
qed

lemma handleQualifiedNode_first:
  "\<exists>post. calls (snd (handleQualifiedNode m root parent p ch ms)) =
          calls ms @ GetElementByPath parent p # post"
proof -
  obtain el callbacks ms1
    where r: "resolveQualified m root parent (Qualified p ch) p ms = (el, callbacks, ms1)"
    by (cases "resolveQualified m root parent (Qualified p ch) p ms") auto
  from calls_resolveQualified[of m root parent "Qualified p ch" p ms] r
  obtain r0 where c1: "calls ms1 = calls ms @ GetElementByPath parent p # r0" by auto
  show ?thesis
  proof (cases el)
    case None
    with r c1 show ?thesis by (simp add: handleQualifiedNode.simps)
  next
    case (Some element)
    show ?thesis
    proof (cases ch)
      case None
      with r c1 Some show ?thesis by (simp add: handleQualifiedNode.simps)
    next
      case (Some children)
      from handleQualifiedNode_grows(2)[of m root element children ms1]
      obtain rest where
        "calls (snd (handleQualifiedChildren m root element children ms1)) = calls ms1 @ rest"
        by auto
      with r c1 Some \<open>el = Some element\<close> show ?thesis
        by (auto simp: handleQualifiedNode.simps split: prod.splits)
    qed
  qed
qed

lemma handleNodeChildren_append:
  "handleNodeChildren m n (cs1 @ cs2) ms =
     (let (cbs1, ms1) = handleNodeChildren m n cs1 ms;
          (cbs2, ms2) = handleNodeChildren m n cs2 ms1
      in (cbs1 @ cbs2, ms2))"
  by (induction cs1 arbitrary: ms) (simp_all split: prod.splits)

lemma handleQualifiedChildren_append:
  "handleQualifiedChildren m root element (cs1 @ cs2) ms =
     (let (cbs1, ms1) = handleQualifiedChildren m root element cs1 ms;
          (cbs2, ms2) = handleQualifiedChildren m root element cs2 ms1
      in (cbs1 @ cbs2, ms2))"
  by (induction cs1 arbitrary: ms) (simp_all split: prod.splits)

lemma handleNodeChildren_serves:
  "\<exists>post. calls (snd (handleNodeChildren m n (cs1 @ c # cs2) ms)) =
          calls (snd (handleNodeChildren m n cs1 ms)) @ GetElementByNumber n (number c) # post"
proof -
  obtain cbs1 ms1 where a: "handleNodeChildren m n cs1 ms = (cbs1, ms1)"
    by (cases "handleNodeChildren m n cs1 ms") auto
  obtain cbs2 ms2 where b: "handleNode m n c ms1 = (cbs2, ms2)"
    by (cases "handleNode m n c ms1") auto
  from handleNode_first[of m n c ms1] b
  obtain post where p: "calls ms2 = calls ms1 @ GetElementByNumber n (number c) # post"
    by auto
  from handleNode_grows(2)[of m n cs2 ms2]
  obtain rest where "calls (snd (handleNodeChildren m n cs2 ms2)) = calls ms2 @ rest"
    by auto
  with a b p show ?thesis
    by (auto simp: handleNodeChildren_append split: prod.splits)
qed

lemma handleQualifiedChildren_serves:
  "\<exists>post. calls (snd (handleQualifiedChildren m root element (cs1 @ c # cs2) ms)) =
          calls (snd (handleQualifiedChildren m root element cs1 ms)) @ lookupFor element c # post"
proof -
  let ?h = "\<lambda>ms. case c of
               Qualified p ch \<Rightarrow> handleQualifiedNode m root element p ch ms
             | Numbered k ch \<Rightarrow> handleNode m element c ms"
  obtain cbs1 ms1 where a: "handleQualifiedChildren m root element cs1 ms = (cbs1, ms1)"
    by (cases "handleQualifiedChildren m root element cs1 ms") auto
  obtain cbs2 ms2 where b: "?h ms1 = (cbs2, ms2)"
    by (cases "?h ms1") auto
  have "\<exists>post. calls ms2 = calls ms1 @ lookupFor element c # post"
  proof (cases c)
    case (Qualified p ch)
    with handleQualifiedNode_first[of m root element p ch ms1] b show ?thesis
      by (auto simp: lookupFor_def)
  next
    case (Numbered k ch)
    with handleNode_first[of m element c ms1] b show ?thesis
      by (auto simp: lookupFor_def)
  qed
  then obtain post where p: "calls ms2 = calls ms1 @ lookupFor element c # post" by auto
  from handleQualifiedNode_grows(2)[of m root element cs2 ms2]
  obtain rest where "calls (snd (handleQualifiedChildren m root element cs2 ms2)) = calls ms2 @ rest"
    by auto
  with a b p show ?thesis
    by (auto simp: handleQualifiedChildren_append split: prod.splits)
qed

lemma handleRoot_calls:
  "calls (handleRoot m root (Some els) ms) =
     calls (snd (handleQualifiedChildren m root root els
        (called UpdateRoot (ms\<lparr>tree := fst (updateRoot m (tree ms) (Some els))\<rparr>))))"
  by (simp add: handleRoot_def Let_def split: prod.splits)

lemma resolveQualified_found:
  assumes "getElementByPath m (tree ms) parent p = Some el"
  shows "fst (resolveQualified m root parent node p ms) = Some el"
    and "calls (snd (snd (resolveQualified m root parent node p ms))) =
           calls ms @ [GetElementByPath parent p, Update el node]"
  using assms
  by (simp_all add: resolveQualified_def lookupPath_def doUpdate_def split: prod.splits)

lemma resolveQualified_not_found:
  assumes "getElementByPath m (tree ms) parent p = None"
    and "length (split (CHR ''.'') p) \<noteq> 1"
  shows "\<exists>rest. calls (snd (snd (resolveQualified m root parent node p ms))) =
           calls ms @ [GetElementByPath parent p,
                       GetElementByPath root (join ''.'' (butlast (split (CHR ''.'') p)))] @ rest"
  using assms
  by (simp add: resolveQualified_def lookupPath_def doAddChild_def Let_def
      split: prod.splits option.splits)

lemma resolveNumbered_found:
  assumes "getElementByNumber m (tree ms) parent (number node) = Some el"
  shows "fst (resolveNumbered m parent node ms) = el"
    and "calls (snd (snd (resolveNumbered m parent node ms))) =
           calls ms @ [GetElementByNumber parent (number node), Update el node]"
  using assms
  by (simp_all add: resolveNumbered_def lookupNumber_def doUpdate_def split: prod.splits)


section \<open>A qualified node whose parent is unknown\<close>

text \<open>
  C3. Merging a qualified incoming node with path \<open>p\<close> that the lookup does not
  find, and whose parent path (\<open>p\<close> without its last segment, \<open>p\<close> having more
  than one segment) the Root does not find either, returns normally with no
  callbacks; it attaches nothing and updates nothing: the tree and the emitted
  value changes are as before, and the only calls made on the tree are the two
  lookups. This holds for every tree model.
\<close>

theorem handleQualifiedNode_drops_orphan:
  assumes "getElementByPath m (tree ms) parent p = None"
    and "length (split (CHR ''.'') p) \<noteq> 1"
    and "getElementByPath m (tree ms) root (join ''.'' (butlast (split (CHR ''.'') p))) = None"
  shows "handleQualifiedNode m root parent p ch ms =
           ([], ms\<lparr>calls := calls ms @
                  [GetElementByPath parent p,
                   GetElementByPath root (join ''.'' (butlast (split (CHR ''.'') p)))]\<rparr>)
         \<and> fst (handleQualifiedNode m root parent p ch ms) = []
         \<and> tree (snd (handleQualifiedNode m root parent p ch ms)) = tree ms
         \<and> valueChanges (snd (handleQualifiedNode m root parent p ch ms)) = valueChanges ms
         \<and> firedCallbacks (snd (handleQualifiedNode m root parent p ch ms)) = firedCallbacks ms"
  using assms
  by (simp add: handleQualifiedNode.simps resolveQualified_def lookupPath_def called_def Let_def)

text \<open>
  Witness for C3: the tree holds element \<open>1\<close> only, and the fragment is the
  qualified node \<open>1.2.3\<close>, whose parent \<open>1.2\<close> is unknown.
\<close>

theorem handleQualifiedNode_drops_orphan_witness:
  "handleQualifiedNode listTree [] [] ''1.2.3'' None (emptyMerge [[1]]) =
     ([], \<lparr>tree = [[1]], valueChanges = [],
           calls = [GetElementByPath [] ''1.2.3'', GetElementByPath [] ''1.2''],
           firedCallbacks = []\<rparr>)"
proof -
  have 1: "getElementByPath listTree (tree (emptyMerge [[1]])) [] ''1.2.3'' = None"
    by (simp add: listTree_def emptyMerge_def parsePath_def parseSegment_def)
  have 2: "length (split (CHR ''.'') ''1.2.3'') \<noteq> 1" by simp
  have 3: "getElementByPath listTree (tree (emptyMerge [[1]])) []
      (join ''.'' (butlast (split (CHR ''.'') ''1.2.3''))) = None"
    by (simp add: listTree_def emptyMerge_def parsePath_def parseSegment_def)
  from handleQualifiedNode_drops_orphan[OF 1 2 3, of None]
  show ?thesis by (simp add: emptyMerge_def)
qed

section \<open>Which element a child is looked up on\<close>

text \<open>
  C7 (as amended). During the merge of a fragment, every top-level element is
  served by a lookup on the Root, a qualified one by its full path. Every child of a
  qualified node is served by a lookup on the element that the node has just
  resolved to, and not on the Root: a qualified child by its full path, a
  number-addressed child by its number. A number-addressed child of a
  number-addressed node is looked up by its number on the element that this node
  has just resolved to. A qualified node resolves to the element that its own
  lookup finds; the Root is asked only when that lookup finds nothing, and then for
  the path of the node's parent. In each case the lookup is the first call made for
  the child, right after the calls made for its elder siblings.
\<close>

theorem merge_lookup_receivers:
  "(\<exists>post. calls (handleRoot m root (Some (es1 @ e # es2)) ms) =
       calls (snd (handleQualifiedChildren m root root es1
          (called UpdateRoot
             (ms\<lparr>tree := fst (updateRoot m (tree ms) (Some (es1 @ e # es2)))\<rparr>))))
       @ lookupFor root e # post)
   \<and> (resolveQualified m root parent (Qualified p (Some (cs1 @ c # cs2))) p ms
         = (Some element, callbacks, ms1)
       \<longrightarrow> (\<exists>post. calls (snd (handleQualifiedNode m root parent p (Some (cs1 @ c # cs2)) ms)) =
              calls (snd (handleQualifiedChildren m root element cs1 ms1))
              @ lookupFor element c # post))
   \<and> (resolveNumbered m parent node ms = (n, callbacks, ms1)
        \<and> getChildren node = Some (cs1 @ Numbered k ch # cs2)
       \<longrightarrow> (\<exists>post. calls (snd (handleNode m parent node ms)) =
              calls (snd (handleNodeChildren m n cs1 ms1))
              @ GetElementByNumber n (Some k) # post))
   \<and> (getElementByPath m (tree ms) parent p = Some el
       \<longrightarrow> fst (resolveQualified m root parent node p ms) = Some el
           \<and> calls (snd (snd (resolveQualified m root parent node p ms))) =
               calls ms @ [GetElementByPath parent p, Update el node])
   \<and> (getElementByPath m (tree ms) parent p = None \<and> length (split (CHR ''.'') p) \<noteq> 1
       \<longrightarrow> (\<exists>rest. calls (snd (snd (resolveQualified m root parent node p ms))) =
              calls ms @ [GetElementByPath parent p,
                          GetElementByPath root (join ''.'' (butlast (split (CHR ''.'') p)))]
              @ rest))
   \<and> (getElementByNumber m (tree ms) parent (number node) = Some n
       \<longrightarrow> fst (resolveNumbered m parent node ms) = n
           \<and> calls (snd (snd (resolveNumbered m parent node ms))) =
               calls ms @ [GetElementByNumber parent (number node), Update n node])"
proof -
  have a: "\<exists>post. calls (handleRoot m root (Some (es1 @ e # es2)) ms) =
       calls (snd (handleQualifiedChildren m root root es1
          (called UpdateRoot
             (ms\<lparr>tree := fst (updateRoot m (tree ms) (Some (es1 @ e # es2)))\<rparr>))))
       @ lookupFor root e # post"
    unfolding handleRoot_calls by (rule handleQualifiedChildren_serves)
  have b: "\<exists>post. calls (snd (handleQualifiedNode m root parent p (Some (cs1 @ c # cs2)) ms)) =
              calls (snd (handleQualifiedChildren m root element cs1 ms1))
              @ lookupFor element c # post"
    if "resolveQualified m root parent (Qualified p (Some (cs1 @ c # cs2))) p ms
         = (Some element, callbacks, ms1)"
    using that handleQualifiedChildren_serves[of m root element cs1 c cs2 ms1]
    by (auto simp: handleQualifiedNode.simps split: prod.splits)
  have c: "\<exists>post. calls (snd (handleNode m parent node ms)) =
              calls (snd (handleNodeChildren m n cs1 ms1))
              @ GetElementByNumber n (Some k) # post"
    if "resolveNumbered m parent node ms = (n, callbacks, ms1)"
      "getChildren node = Some (cs1 @ Numbered k ch # cs2)"
    using that handleNodeChildren_serves[of m n cs1 "Numbered k ch" cs2 ms1]
    by (auto simp: handleNode.simps split: prod.splits)
  from a b c resolveQualified_found[of m ms parent p el root node]
    resolveQualified_not_found[of m ms parent p root node]
    resolveNumbered_found[of m ms parent node n]
  show ?thesis by blast
qed


text \<open>
  Witness for C7, on the tree with elements \<open>1\<close> and \<open>1.2\<close>: the qualified child
  \<open>1.2\<close> of the qualified node \<open>1\<close> is looked up on element \<open>1\<close>; the numbered
  child \<open>3\<close> of the numbered node \<open>2\<close> under \<open>1\<close> is looked up on element
  \<open>1.2\<close>; the qualified node \<open>1\<close> resolves to the element found for it; for the
  unknown \<open>1.2.3\<close> the Root is asked for \<open>1.2\<close>.
\<close>

theorem merge_lookup_receivers_witness:
  "(\<exists>post. calls (handleRoot listTree [] (Some [Qualified ''1'' None]) (emptyMerge [[1]]))
       = [UpdateRoot, GetElementByPath [] ''1''] @ post)
   \<and> (\<exists>post. calls (snd (handleQualifiedNode listTree [] [] ''1''
                (Some [Qualified ''1.2'' None]) (emptyMerge [[1], [1, 2]])))
       = [GetElementByPath [] ''1'',
          Update [1] (Qualified ''1'' (Some [Qualified ''1.2'' None])),
          GetElementByPath [1] ''1.2''] @ post)
   \<and> (\<exists>post. calls (snd (handleNode listTree [1] (Numbered 2 (Some [Numbered 3 None]))
                (emptyMerge [[1], [1, 2]])))
       = [GetElementByNumber [1] (Some 2),
          Update [1, 2] (Numbered 2 (Some [Numbered 3 None])),
          GetElementByNumber [1, 2] (Some 3)] @ post)
   \<and> fst (resolveQualified listTree [] [] (Qualified ''1'' None) ''1'' (emptyMerge [[1]]))
       = Some [1]
   \<and> (\<exists>rest. calls (snd (snd (resolveQualified listTree [] [] (Qualified ''1.2.3'' None)
                ''1.2.3'' (emptyMerge [[1]]))))
       = [GetElementByPath [] ''1.2.3'', GetElementByPath [] ''1.2''] @ rest)
   \<and> fst (resolveNumbered listTree [1] (Numbered 2 None) (emptyMerge [[1], [1, 2]]))
       = [1, 2]"
proof -
  let ?t1 = "emptyMerge [[1]]"
  let ?t2 = "emptyMerge [[1], [1, 2]]"
  let ?q = "Qualified ''1'' (Some [Qualified ''1.2'' None])"
  let ?n = "Numbered 2 (Some [Numbered 3 None])"
  let ?ms1 = "\<lparr>tree = [[1], [1, 2]], valueChanges = [?q],
      calls = [GetElementByPath [] ''1'', Update [1] ?q],
      firedCallbacks = ([] :: int list list)\<rparr>"
  let ?ms2 = "\<lparr>tree = [[1], [1, 2]], valueChanges = [],
      calls = [GetElementByNumber [1] (Some 2), Update [1, 2] ?n],
      firedCallbacks = ([] :: int list list)\<rparr>"
  note ev = listTree_def emptyMerge_def parsePath_def parseSegment_def resolveQualified_def
    resolveNumbered_def lookupPath_def lookupNumber_def doUpdate_def doAddChild_def
    called_def emitValueChange_def lookupFor_def Let_def
  have a: "\<exists>post. calls (handleRoot listTree [] (Some [Qualified ''1'' None]) ?t1)
       = [UpdateRoot, GetElementByPath [] ''1''] @ post"
    using merge_lookup_receivers[where m = listTree and root = "[]" and ?es1.0 = "[]"
        and e = "Qualified ''1'' None" and ?es2.0 = "[]" and ms = ?t1]
    by (simp add: ev)
  have hb: "resolveQualified listTree [] [] (Qualified ''1'' (Some ([] @ Qualified ''1.2'' None # [])))
      ''1'' ?t2 = (Some [1], [[1]], ?ms1)"
    by (simp add: ev)
  have b: "\<exists>post. calls (snd (handleQualifiedNode listTree [] [] ''1''
                (Some [Qualified ''1.2'' None]) ?t2))
       = [GetElementByPath [] ''1'', Update [1] ?q, GetElementByPath [1] ''1.2''] @ post"
    using merge_lookup_receivers[where m = listTree and root = "[]" and parent = "[]"
        and p = "''1''" and ?cs1.0 = "[]" and c = "Qualified ''1.2'' None" and ?cs2.0 = "[]"
        and ms = ?t2 and element = "[1]" and callbacks = "[[1]]" and ?ms1.0 = ?ms1] hb
    by (simp add: lookupFor_def)
  have hc: "resolveNumbered listTree [1] ?n ?t2 = ([1, 2], [[1, 2]], ?ms2)
      \<and> getChildren ?n = Some ([] @ Numbered 3 None # [])"
    by (simp add: ev)
  have c: "\<exists>post. calls (snd (handleNode listTree [1] ?n ?t2))
       = [GetElementByNumber [1] (Some 2), Update [1, 2] ?n,
          GetElementByNumber [1, 2] (Some 3)] @ post"
    using merge_lookup_receivers[where m = listTree and parent = "[1]" and node = ?n
        and ms = ?t2 and n = "[1, 2]" and callbacks = "[[1, 2]]" and ?ms1.0 = ?ms2
        and ?cs1.0 = "[]" and k = 3 and ch = None and ?cs2.0 = "[]"] hc
    by simp
  have hd: "getElementByPath listTree (tree ?t1) [] ''1'' = Some [1]"
    by (simp add: ev)
  have d: "fst (resolveQualified listTree [] [] (Qualified ''1'' None) ''1'' ?t1) = Some [1]"
    using merge_lookup_receivers[where m = listTree and ms = ?t1 and parent = "[]"
        and p = "''1''" and el = "[1]" and root = "[]" and node = "Qualified ''1'' None"] hd
    by blast
  have he: "getElementByPath listTree (tree ?t1) [] ''1.2.3'' = None
      \<and> length (split (CHR ''.'') ''1.2.3'') \<noteq> 1"
    by (simp add: ev)
  have e: "\<exists>rest. calls (snd (snd (resolveQualified listTree [] [] (Qualified ''1.2.3'' None)
                ''1.2.3'' ?t1)))
       = [GetElementByPath [] ''1.2.3'', GetElementByPath [] ''1.2''] @ rest"
    using merge_lookup_receivers[where m = listTree and ms = ?t1 and parent = "[]"
        and p = "''1.2.3''" and root = "[]" and node = "Qualified ''1.2.3'' None"] he
    by (simp add: emptyMerge_def)
  have hf: "getElementByNumber listTree (tree ?t2) [1] (number (Numbered 2 None)) = Some [1, 2]"
    by (simp add: ev)
  have f: "fst (resolveNumbered listTree [1] (Numbered 2 None) ?t2) = [1, 2]"
    using merge_lookup_receivers[where m = listTree and ms = ?t2 and parent = "[1]"
        and node = "Numbered 2 None" and n = "[1, 2]"] hf
    by blast
  from a b c d e f show ?thesis by blast
qed

text \<open>
  Counterexample to C7 as stated: the tree holds the elements \<open>1\<close> and \<open>1.2\<close>, and
  the fragment is the qualified node \<open>1\<close> with the qualified child \<open>1.2\<close>. The
  child is looked up on element \<open>1\<close>, the element its enclosing node has just
  resolved to; no lookup of \<open>1.2\<close> is made on the Root.
\<close>

theorem nested_qualified_child_looked_up_on_element:
  "calls (handleRoot listTree [] (Some [Qualified ''1'' (Some [Qualified ''1.2'' None])])
            (emptyMerge [[1], [1, 2]]))
     = [UpdateRoot,
        GetElementByPath [] ''1'',
        Update [1] (Qualified ''1'' (Some [Qualified ''1.2'' None])),
        GetElementByPath [1] ''1.2'',
        Update [1, 2] (Qualified ''1.2'' None)]"
  by (simp add: handleRoot_def handleQualifiedNode.simps resolveQualified_def lookupPath_def
      doUpdate_def called_def emitValueChange_def listTree_def emptyMerge_def parsePath_def
      parseSegment_def Let_def)


section \<open>Expansion\<close>

declare expandNode.simps [simp del]

lemma expandNode_parameter:
  "isParameter node \<Longrightarrow>
     expandNode node visited =
       ((case directory node of Inl e \<Rightarrow> Rejected e | Inr f \<Rightarrow> Resolved (Fragment f)),
        node, visited @ [nodeNumber node])"
  by (simp add: expandNode.simps requestDirectory_def)

lemma expandNode_rejected:
  "\<not> isParameter node \<Longrightarrow> directory node = Inl e \<Longrightarrow>
     expandNode node visited = (Rejected e, node, visited @ [nodeNumber node])"
  by (simp add: expandNode.simps requestDirectory_def)

lemma expandNode_resolved:
  "\<not> isParameter node \<Longrightarrow> directory node = Inr f \<Longrightarrow>
     expandNode node visited =
       (case childNodes node of
          None \<Rightarrow> (Resolved Undefined, node, visited @ [nodeNumber node])
        | Some cs \<Rightarrow>
            (Resolved Undefined,
             DNode (nodeNumber node) (isParameter node) (directory node)
               (Some (fst (expandChildren cs (visited @ [nodeNumber node]))))
               (attachedError node),
             snd (expandChildren cs (visited @ [nodeNumber node]))))"
  by (simp add: expandNode.simps requestDirectory_def split: option.splits prod.splits)

lemma expandNode_outcome:
  "\<not> isParameter node \<Longrightarrow>
     fst (expandNode node visited) =
       (case directory node of Inl e \<Rightarrow> Rejected e | Inr f \<Rightarrow> Resolved Undefined)"
  by (cases "directory node")
     (simp_all add: expandNode_rejected expandNode_resolved split: option.splits)

lemma expandNode_fields:
  "nodeNumber (fst (snd (expandNode node visited))) = nodeNumber node
   \<and> isParameter (fst (snd (expandNode node visited))) = isParameter node
   \<and> directory (fst (snd (expandNode node visited))) = directory node
   \<and> attachedError (fst (snd (expandNode node visited))) = attachedError node"
proof (cases "isParameter node")
  case True
  then show ?thesis by (simp add: expandNode_parameter)
next
  case False
  then show ?thesis
    by (cases "directory node")
       (simp_all add: expandNode_rejected expandNode_resolved split: option.splits)
qed

lemma expandChildren_Cons:
  "expandChildren (child # rest) visited =
     (if isParameter child
      then (child # fst (expandChildren rest visited), snd (expandChildren rest visited))
      else
        ((case fst (expandNode child visited) of
            Rejected e \<Rightarrow>
              DNode (nodeNumber child) (isParameter child) (directory child)
                (childNodes (fst (snd (expandNode child visited)))) (Some e)
          | Resolved v \<Rightarrow> fst (snd (expandNode child visited)))
         # fst (expandChildren rest (snd (snd (expandNode child visited)))),
         snd (expandChildren rest (snd (snd (expandNode child visited))))))"
  using expandNode_fields[of child visited]
  by (auto simp: Let_def split: prod.splits outcome.splits)

declare expandChildren.simps(2) [simp del]

text \<open>
  What an expansion does is the same whatever was visited before it; it only adds
  to the record.
\<close>

lemma expand_visited_append_all:
  fixes w :: "int list"
  shows "\<forall>v. expandNode node v =
     (fst (expandNode node []), fst (snd (expandNode node [])),
      v @ snd (snd (expandNode node [])))"
  and "\<forall>v. expandChildren cs v =
     (fst (expandChildren cs []), v @ snd (expandChildren cs []))"
proof (induction node w and cs w rule: expandNode_expandChildren.induct)
  case (1 node w)
  show ?case
  proof (cases "isParameter node")
    case True
    then show ?thesis by (simp add: expandNode_parameter)
  next
    case False
    show ?thesis
    proof (cases "directory node")
      case (Inl e)
      with False show ?thesis by (simp add: expandNode_rejected)
    next
      case (Inr f)
      show ?thesis
      proof (cases "childNodes node")
        case None
        with False Inr show ?thesis by (simp add: expandNode_resolved)
      next
        case (Some cs)
        have r: "(Resolved (Fragment f), w @ [nodeNumber node]) = requestDirectory node w"
          using Inr by (simp add: requestDirectory_def)
        have ne: "Fragment f \<noteq> Undefined" by simp
        from "1.IH"[OF False r refl refl Some ne]
        have a: "\<And>v. expandChildren cs v =
            (fst (expandChildren cs []), v @ snd (expandChildren cs []))" by blast
        show ?thesis
        proof
          fix v
          from a[of "v @ [nodeNumber node]"] a[of "[nodeNumber node]"]
          show "expandNode node v =
            (fst (expandNode node []), fst (snd (expandNode node [])),
             v @ snd (snd (expandNode node [])))"
            using False Inr Some by (simp add: expandNode_resolved)
        qed
      qed
    qed
  qed
next
  case (2 w)
  then show ?case by simp
next
  case (3 child rest w)
  show ?case
  proof (cases "isParameter child")
    case True
    from "3.IH"(1)[OF True] have a: "\<And>v. expandChildren rest v =
        (fst (expandChildren rest []), v @ snd (expandChildren rest []))" by blast
    show ?thesis
    proof
      fix v
      from a[of v] show "expandChildren (child # rest) v =
          (fst (expandChildren (child # rest) []), v @ snd (expandChildren (child # rest) []))"
        using True by (simp add: expandChildren_Cons)
    qed
  next
    case False
    from "3.IH"(2)[OF False] have n: "\<And>v. expandNode child v =
       (fst (expandNode child []), fst (snd (expandNode child [])),
        v @ snd (snd (expandNode child [])))" by blast
    obtain out child1 w1 where e: "expandNode child w = (out, child1, w1)"
      by (cases "expandNode child w") auto
    from "3.IH"(3)[OF False e[symmetric] refl refl refl]
    have a: "\<And>v. expandChildren rest v =
        (fst (expandChildren rest []), v @ snd (expandChildren rest []))" by blast
    show ?thesis
    proof
      fix v
      have f: "fst (expandNode child v) = fst (expandNode child [])"
        "fst (snd (expandNode child v)) = fst (snd (expandNode child []))"
        "snd (snd (expandNode child v)) = v @ snd (snd (expandNode child []))"
        using n[of v] by (metis fst_conv snd_conv)+
      from a[of "v @ snd (snd (expandNode child []))"] a[of "snd (snd (expandNode child []))"]
      show "expandChildren (child # rest) v =
          (fst (expandChildren (child # rest) []), v @ snd (expandChildren (child # rest) []))"
        using False f by (simp add: expandChildren_Cons split: outcome.splits)
    qed
  qed
qed

lemma expandNode_from:
  "fst (expandNode child v) = fst (expandNode child [])"
  "fst (snd (expandNode child v)) = fst (snd (expandNode child []))"
  "snd (snd (expandNode child v)) = v @ snd (snd (expandNode child []))"
  using expand_visited_append_all(1)[of child] by (metis fst_conv snd_conv)+

lemma expandChildren_from:
  "fst (expandChildren cs v) = fst (expandChildren cs [])"
  "snd (expandChildren cs v) = v @ snd (expandChildren cs [])"
  using expand_visited_append_all(2)[of cs] by (metis fst_conv snd_conv)+

lemma expandChildren_visited:
  "snd (expandChildren cs v) =
     v @ concat (map (\<lambda>c. snd (snd (expandNode c []))) (filter (\<lambda>c. \<not> isParameter c) cs))"
proof (induction cs arbitrary: v)
  case Nil
  then show ?case by simp
next
  case (Cons child rest)
  show ?case
  proof (cases "isParameter child")
    case True
    with Cons show ?thesis by (simp add: expandChildren_Cons)
  next
    case False
    with Cons[of "snd (snd (expandNode child v))"] show ?thesis
      by (simp add: expandChildren_Cons expandNode_from(3)[of child v])
  qed
qed

lemma expandChildren_numbers:
  "map nodeNumber (fst (expandChildren cs v)) = map nodeNumber cs"
proof (induction cs arbitrary: v)
  case Nil
  then show ?case by simp
next
  case (Cons child rest)
  then show ?case
    using expandNode_fields[of child v]
    by (simp add: expandChildren_Cons split: outcome.splits)
qed

lemma expandChildren_errors:
  "map attachedError (fst (expandChildren cs v)) =
     map (\<lambda>c. if isParameter c then attachedError c
              else (case fst (expandNode c []) of
                      Rejected e \<Rightarrow> Some e
                    | Resolved x \<Rightarrow> attachedError c)) cs"
proof (induction cs arbitrary: v)
  case Nil
  then show ?case by simp
next
  case (Cons child rest)
  then show ?case
    using expandNode_fields[of child v] expandNode_from(1)[of child v]
    by (simp add: expandChildren_Cons split: outcome.splits)
qed

lemma expandNode_starts:
  "\<exists>more. snd (snd (expandNode c [])) = nodeNumber c # more"
proof (cases "isParameter c")
  case True
  then show ?thesis by (simp add: expandNode_parameter)
next
  case False
  show ?thesis
  proof (cases "directory c")
    case (Inl e)
    with False show ?thesis by (simp add: expandNode_rejected)
  next
    case (Inr f)
    with False show ?thesis
      by (simp add: expandNode_resolved expandChildren_from(2)[of _ "[nodeNumber c]"]
          split: option.splits)
  qed
qed

text \<open>
  C6. For \<open>expand(node)\<close> on a node that is not a parameter: the promise rejects
  exactly when the node's own \<open>getDirectory\<close> rejects, with the same error, and
  resolves otherwise, whatever happens below. When \<open>getDirectory\<close> has resolved and
  the node has children, \<open>getDirectory\<close> is called for the node itself and then the
  children that are not parameters are expanded one after the other in the order
  of the children, each expansion complete before the next begins and each
  beginning with the child's own \<open>getDirectory\<close>; parameter children are skipped.
  A child whose expansion rejects with \<open>e\<close> gets \<open>e\<close> as its error field; the
  children after it are expanded all the same; the other children keep their
  error field. The expansion of a child does not depend on what was expanded
  before it.
\<close>

theorem expand_absorbs_child_failures:
  assumes "\<not> isParameter node"
  shows "fst (expandNode node v) =
           (case directory node of Inl e \<Rightarrow> Rejected e | Inr f \<Rightarrow> Resolved Undefined)
       \<and> (directory node = Inr f \<and> childNodes node = Some cs \<longrightarrow>
            snd (snd (expandNode node v)) =
              v @ nodeNumber node #
                concat (map (\<lambda>c. snd (snd (expandNode c [])))
                          (filter (\<lambda>c. \<not> isParameter c) cs))
            \<and> (\<exists>cs'. childNodes (fst (snd (expandNode node v))) = Some cs'
                 \<and> map nodeNumber cs' = map nodeNumber cs
                 \<and> map attachedError cs' =
                     map (\<lambda>c. if isParameter c then attachedError c
                              else (case fst (expandNode c []) of
                                      Rejected e \<Rightarrow> Some e
                                    | Resolved x \<Rightarrow> attachedError c)) cs))
       \<and> (\<exists>more. snd (snd (expandNode c [])) = nodeNumber c # more)
       \<and> fst (expandNode c w) = fst (expandNode c [])"
proof -
  have 1: "fst (expandNode node v) =
           (case directory node of Inl e \<Rightarrow> Rejected e | Inr f \<Rightarrow> Resolved Undefined)"
    using assms by (rule expandNode_outcome)
  have 2: "snd (snd (expandNode node v)) =
              v @ nodeNumber node #
                concat (map (\<lambda>c. snd (snd (expandNode c [])))
                          (filter (\<lambda>c. \<not> isParameter c) cs))
            \<and> (\<exists>cs'. childNodes (fst (snd (expandNode node v))) = Some cs'
                 \<and> map nodeNumber cs' = map nodeNumber cs
                 \<and> map attachedError cs' =
                     map (\<lambda>c. if isParameter c then attachedError c
                              else (case fst (expandNode c []) of
                                      Rejected e \<Rightarrow> Some e
                                    | Resolved x \<Rightarrow> attachedError c)) cs)"
    if "directory node = Inr f" "childNodes node = Some cs"
    using assms that
    by (simp add: expandNode_resolved expandChildren_visited expandChildren_numbers
        expandChildren_errors)
  from 1 2 expandNode_starts[of c] expandNode_from(1)[of c w] show ?thesis by blast
qed

text \<open>
  Witness for C6: node 1 has the children 2, whose \<open>getDirectory\<close> times out, 3, a
  parameter, and 4, which has the child 5. The expansion of 1 resolves;
  \<open>getDirectory\<close> is called for 1, 2, 4 and 5 in this order; the timeout is
  attached to 2 and to no other child.
\<close>

theorem expand_absorbs_child_failures_witness:
  "fst (expandNode
      (DNode 1 False (Inr \<lparr>isInvocationResult = False, elements = Some [''1'']\<rparr>)
        (Some [DNode 2 False (Inl (EmberTimeoutError 3)) None None,
               DNode 3 True (Inr \<lparr>isInvocationResult = False, elements = Some [''3'']\<rparr>)
                 None None,
               DNode 4 False (Inr \<lparr>isInvocationResult = False, elements = Some [''4'']\<rparr>)
                 (Some [DNode 5 False
                    (Inr \<lparr>isInvocationResult = False, elements = Some [''5'']\<rparr>) None None])
                 None])
        None) []) = Resolved Undefined
   \<and> snd (snd (expandNode
      (DNode 1 False (Inr \<lparr>isInvocationResult = False, elements = Some [''1'']\<rparr>)
        (Some [DNode 2 False (Inl (EmberTimeoutError 3)) None None,
               DNode 3 True (Inr \<lparr>isInvocationResult = False, elements = Some [''3'']\<rparr>)
                 None None,
               DNode 4 False (Inr \<lparr>isInvocationResult = False, elements = Some [''4'']\<rparr>)
                 (Some [DNode 5 False
                    (Inr \<lparr>isInvocationResult = False, elements = Some [''5'']\<rparr>) None None])
                 None])
        None) [])) = [1, 2, 4, 5]
   \<and> (\<exists>cs'. childNodes (fst (snd (expandNode
      (DNode 1 False (Inr \<lparr>isInvocationResult = False, elements = Some [''1'']\<rparr>)
        (Some [DNode 2 False (Inl (EmberTimeoutError 3)) None None,
               DNode 3 True (Inr \<lparr>isInvocationResult = False, elements = Some [''3'']\<rparr>)
                 None None,
               DNode 4 False (Inr \<lparr>isInvocationResult = False, elements = Some [''4'']\<rparr>)
                 (Some [DNode 5 False
                    (Inr \<lparr>isInvocationResult = False, elements = Some [''5'']\<rparr>) None None])
                 None])
        None) []))) = Some cs'
      \<and> map attachedError cs' = [Some (EmberTimeoutError 3), None, None])"
proof -
  let ?f = "\<lambda>p. \<lparr>isInvocationResult = False, elements = Some [p]\<rparr>"
  let ?c2 = "DNode 2 False (Inl (EmberTimeoutError 3)) None None"
  let ?c3 = "DNode 3 True (Inr (?f ''3'')) None None"
  let ?c5 = "DNode 5 False (Inr (?f ''5'')) None None"
  let ?c4 = "DNode 4 False (Inr (?f ''4'')) (Some [?c5]) None"
  let ?n = "DNode 1 False (Inr (?f ''1'')) (Some [?c2, ?c3, ?c4]) None"
  have h: "\<not> isParameter ?n" by simp
  have d: "directory ?n = Inr (?f ''1'') \<and> childNodes ?n = Some [?c2, ?c3, ?c4]" by simp
  have e2: "expandNode ?c2 [] = (Rejected (EmberTimeoutError 3), ?c2, [2])"
    by (simp add: expandNode_rejected)
  have e5: "expandNode ?c5 [] = (Resolved Undefined, ?c5, [5])"
    by (simp add: expandNode_resolved)
  have e4: "expandNode ?c4 [] = (Resolved Undefined, ?c4, [4, 5])"
    by (simp add: expandNode_resolved expandChildren_Cons expandNode_from(3)[of ?c5 "[4]"] e5)
  from expand_absorbs_child_failures[OF h, of "[]" "?f ''1''" "[?c2, ?c3, ?c4]" ?c2 "[]"] d
  have "fst (expandNode ?n []) = Resolved Undefined
      \<and> snd (snd (expandNode ?n [])) = [1, 2, 4, 5]
      \<and> (\<exists>cs'. childNodes (fst (snd (expandNode ?n []))) = Some cs'
          \<and> map attachedError cs' = [Some (EmberTimeoutError 3), None, None])"
    by (auto simp: e2 e4)
  then show ?thesis .
qed

end
